theory Spec2Isabelle
  imports Complex_Main
begin

chapter \<open>The embedding\<close>

section \<open>JavaScript values, strings and errors\<close>

text \<open>
  JavaScript strings are modelled as \<^typ>\<open>string\<close>. The code only compares characters
  with the slash, the dot and two scheme prefixes, so the width of a code unit plays no role.
  Console output is recorded for the ready manager only; elsewhere it has no influence on
  control flow and is left out.
\<close>

definition startsWith :: "string \<Rightarrow> string \<Rightarrow> bool" where
  \<comment> \<open>\<^verbatim>\<open>s.startsWith(p)\<close>\<close>
  "startsWith s p = (take (length p) s = p)"

fun splitOn :: "char \<Rightarrow> string \<Rightarrow> string list" where
  \<comment> \<open>\<^verbatim>\<open>s.split(c)\<close> for a one-character separator: never empty, \<^verbatim>\<open>''.split('.')\<close> is \<^verbatim>\<open>['']\<close>\<close>
  "splitOn c [] = [[]]"
| "splitOn c (x # xs) =
     (if x = c then [] # splitOn c xs
      else (case splitOn c xs of [] \<Rightarrow> [[x]] | p # ps \<Rightarrow> (x # p) # ps))"

fun joinWith :: "string \<Rightarrow> string list \<Rightarrow> string" where
  \<comment> \<open>\<^verbatim>\<open>xs.join(sep)\<close>\<close>
  "joinWith sep [] = []"
| "joinWith sep [x] = x"
| "joinWith sep (x # y # r) = x @ sep @ joinWith sep (y # r)"

definition apostrophe :: string where
  "apostrophe = [CHR 0x27]"

function showNat :: "nat \<Rightarrow> string" where
  \<comment> \<open>decimal digits of a natural number, as template literals render it\<close>
  "showNat n =
     (if n < 10 then [''0123456789'' ! n]
      else showNat (n div 10) @ [''0123456789'' ! (n mod 10)])"
  by pat_completeness auto
termination
  by (relation "measure id") auto

declare showNat.simps [simp del]

definition showInt :: "int \<Rightarrow> string" where
  \<comment> \<open>the decimal digits of an integer, with its sign\<close>
  "showInt i = (if i < 0 then ''-'' @ showNat (nat (- i)) else showNat (nat i))"

text \<open>
  The values that the host puts behind \<^verbatim>\<open>window.__PYLOID__\<close> and \<^verbatim>\<open>window.ipc\<close>
  (both typed \<^verbatim>\<open>any\<close>). An object or a function carries the table of its own properties;
  a function also carries an identifier that stands for its code, which belongs to the host.
  What a value inherits from its prototypes belongs to the realm of the page, see
  \<open>readProp\<close> below.
\<close>

datatype jsval =
    JUndefined
  | JNull
  | JBool bool
  | JNum int
  | JStr string
  | JObj "(string \<times> jsval) list"
  | JFun nat "(string \<times> jsval) list"

fun truthy :: "jsval \<Rightarrow> bool" where
  "truthy JUndefined = False"
| "truthy JNull = False"
| "truthy (JBool b) = b"
| "truthy (JNum n) = (n \<noteq> 0)"
| "truthy (JStr s) = (s \<noteq> [])"
| "truthy (JObj ps) = True"
| "truthy (JFun f ps) = True"

fun typeof :: "jsval \<Rightarrow> string" where
  "typeof JUndefined = ''undefined''"
| "typeof JNull = ''object''"
| "typeof (JBool b) = ''boolean''"
| "typeof (JNum n) = ''number''"
| "typeof (JStr s) = ''string''"
| "typeof (JObj ps) = ''object''"
| "typeof (JFun f ps) = ''function''"

text \<open>
  The table of the own properties of a value. A primitive has none here: what a property
  read finds on a primitive is given by the realm.
\<close>

fun props :: "jsval \<Rightarrow> (string \<times> jsval) list" where
  "props (JObj ps) = ps"
| "props (JFun f ps) = ps"
| "props v = []"

definition getProp :: "jsval \<Rightarrow> string \<Rightarrow> jsval" where
  \<comment> \<open>the own property \<open>k\<close> of \<open>v\<close>, \<^verbatim>\<open>undefined\<close> when \<open>v\<close> has none\<close>
  "getProp v k = (case map_of (props v) k of None \<Rightarrow> JUndefined | Some x \<Rightarrow> x)"

text \<open>
  A property read \<^verbatim>\<open>v[k]\<close> on a value other than \<^verbatim>\<open>undefined\<close> and \<^verbatim>\<open>null\<close>: the own
  property when there is one, and otherwise what the realm gives. The realm is the function
  \<open>inh\<close>: for an object or a function, \<open>inh v k\<close> is the property \<open>k\<close> that \<open>v\<close> inherits
  from its prototype chain; for a primitive \<open>v\<close> it is what a read of \<open>k\<close> finds on \<open>v\<close> (a
  method of the wrapper prototype such as \<^verbatim>\<open>toUpperCase\<close> on a string, or the \<^verbatim>\<open>length\<close> of a
  string); \<^verbatim>\<open>undefined\<close> where there is nothing. The built-in objects are not part of the
  repository, so the realm is a parameter.
\<close>

type_synonym realm = "jsval \<Rightarrow> string \<Rightarrow> jsval"

definition readProp :: "realm \<Rightarrow> jsval \<Rightarrow> string \<Rightarrow> jsval" where
  "readProp inh v k = (case map_of (props v) k of None \<Rightarrow> inh v k | Some x \<Rightarrow> x)"

datatype js_error = Error string | TypeError | ReferenceError

text \<open>An invocation of a host function: the function's identifier and the arguments.\<close>

datatype invocation = Invocation nat "jsval list"

definition callMethod :: "realm \<Rightarrow> jsval \<Rightarrow> string \<Rightarrow> jsval list \<Rightarrow> js_error + invocation" where
  \<comment> \<open>\<^verbatim>\<open>obj[name](...args)\<close>\<close>
  "callMethod inh obj name args =
     (if obj = JUndefined \<or> obj = JNull then Inl TypeError
      else (case readProp inh obj name of
              JFun f ps \<Rightarrow> Inr (Invocation f args)
            | _ \<Rightarrow> Inl TypeError))"

datatype 'a promise_state = Pending | Fulfilled 'a | Rejected js_error

section \<open>The dynamic dispatcher: \<^verbatim>\<open>IPC.callIPC\<close>\<close>

text \<open>
  The loop \<^verbatim>\<open>for (let i = 0; i < parts.length - 1; i++)\<close> of \<^verbatim>\<open>callIPC\<close>, started at
  \<open>i\<close> with \<open>current\<close>. It returns the value reached when the loop ends, or the error thrown.
\<close>

function navigate :: "realm \<Rightarrow> string \<Rightarrow> string list \<Rightarrow> nat \<Rightarrow> jsval \<Rightarrow> js_error + jsval" where
  "navigate inh path parts i current =
     (if i < length parts - 1 then
        (if truthy current \<and> typeof current = ''object''
         then navigate inh path parts (i + 1) (readProp inh current (parts ! i))
         else Inl (Error (''IPC path '' @ apostrophe @ path @ apostrophe @ '' is not accessible. ''
                 @ apostrophe @ joinWith ''.'' (take (i + 1) parts) @ apostrophe
                 @ '' is not an object.'')))
      else Inr current)"
  by pat_completeness auto
termination
  by (relation "measure (\<lambda>(inh, path, parts, i, current). length parts - 1 - i)") auto

declare navigate.simps [simp del]

definition callIPC_body :: "realm \<Rightarrow> jsval \<Rightarrow> string \<Rightarrow> jsval list \<Rightarrow> js_error + invocation" where
  \<comment> \<open>the function that \<^verbatim>\<open>callIPC\<close> hands to \<^verbatim>\<open>ensureReady\<close>, run with \<^verbatim>\<open>window.ipc\<close>\<close>
  "callIPC_body inh ipc_root path args =
     (let parts = splitOn CHR ''.'' path in
      case navigate inh path parts 0 ipc_root of
        Inl e \<Rightarrow> Inl e
      | Inr current \<Rightarrow>
          (let methodName = parts ! (length parts - 1) in
           if \<not> truthy current \<or> typeof (readProp inh current methodName) \<noteq> ''function''
           then Inl (Error (''IPC method '' @ apostrophe @ path @ apostrophe
                   @ '' is not available or not a function.''))
           else callMethod inh current methodName args))"

section \<open>The typed bridge surface: the operations of \<^verbatim>\<open>BaseAPI\<close>\<close>

datatype base_op =
    GetData
  | GetWindowId
  | GetWindowProperties
  | Close
  | Hide
  | Show
  | Focus
  | ShowAndFocus
  | Fullscreen
  | ToggleFullscreen
  | Minimize
  | Maximize
  | Unmaximize
  | ToggleMaximize
  | IsFullscreen
  | IsMaximized
  | SetTitle string
  | SetSize int int
  | SetPosition int int
  | SetFrame bool
  | GetFrame
  | GetTitle
  | GetSize
  | GetPosition
  | SetClipboardText string
  | GetClipboardText
  | SetClipboardImage string string
  | GetClipboardImage
  | Quit
  | GetPlatform
  | IsProduction
  | GetProductionPath string
  | GetServerUrl

text \<open>
  The function of \<^verbatim>\<open>window.__PYLOID__\<close> that the operation's arrow function calls, and its
  arguments.
\<close>

fun bridgeCall :: "base_op \<Rightarrow> string \<times> jsval list" where
  "bridgeCall GetData = (''getData'', [])"
| "bridgeCall GetWindowId = (''getWindowId'', [])"
| "bridgeCall GetWindowProperties = (''getWindowProperties'', [])"
| "bridgeCall Close = (''close'', [])"
| "bridgeCall Hide = (''hide'', [])"
| "bridgeCall Show = (''show'', [])"
| "bridgeCall Focus = (''focus'', [])"
| "bridgeCall ShowAndFocus = (''showAndFocus'', [])"
| "bridgeCall Fullscreen = (''fullscreen'', [])"
| "bridgeCall ToggleFullscreen = (''toggleFullscreen'', [])"
| "bridgeCall Minimize = (''minimize'', [])"
| "bridgeCall Maximize = (''maximize'', [])"
| "bridgeCall Unmaximize = (''unmaximize'', [])"
| "bridgeCall ToggleMaximize = (''toggleMaximize'', [])"
| "bridgeCall IsFullscreen = (''isFullscreen'', [])"
| "bridgeCall IsMaximized = (''isMaximized'', [])"
| "bridgeCall (SetTitle title) = (''setTitle'', [JStr title])"
| "bridgeCall (SetSize width height) = (''setSize'', [JNum width, JNum height])"
| "bridgeCall (SetPosition x y) = (''setPosition'', [JNum x, JNum y])"
| "bridgeCall (SetFrame frame) = (''setFrame'', [JBool frame])"
| "bridgeCall GetFrame = (''getFrame'', [])"
| "bridgeCall GetTitle = (''getTitle'', [])"
| "bridgeCall GetSize = (''getSize'', [])"
| "bridgeCall GetPosition = (''getPosition'', [])"
| "bridgeCall (SetClipboardText text) = (''setClipboardText'', [JStr text])"
| "bridgeCall GetClipboardText = (''getClipboardText'', [])"
| "bridgeCall (SetClipboardImage imagePath format) =
     (''setClipboardImage'', [JStr imagePath, JStr format])"
| "bridgeCall GetClipboardImage = (''getClipboardImage'', [])"
| "bridgeCall Quit = (''quit'', [])"
| "bridgeCall GetPlatform = (''getPlatform'', [])"
| "bridgeCall IsProduction = (''isProduction'', [])"
| "bridgeCall (GetProductionPath path) = (''getProductionPath'', [JStr path])"
| "bridgeCall GetServerUrl = (''getServerUrl'', [])"

text \<open>A call of the SDK: a method of \<^verbatim>\<open>baseAPI\<close>, or \<^verbatim>\<open>ipc.callIPC(path, ...args)\<close>.\<close>

datatype operation = Api base_op | Ipc string "jsval list"

section \<open>The readiness gate: \<^verbatim>\<open>PyloidReadyManager\<close> and \<^verbatim>\<open>ensureReady\<close>\<close>

text \<open>
  The two closures that the constructor registers with \<^verbatim>\<open>window.setInterval\<close> and
  \<^verbatim>\<open>window.setTimeout\<close>.
\<close>

datatype callback = PollTick | PollTimeout

record window =
  PYLOID :: jsval \<comment> \<open>\<^verbatim>\<open>window.__PYLOID__\<close>\<close>
  ipc :: jsval \<comment> \<open>\<^verbatim>\<open>window.ipc\<close>\<close>
  timers :: "(nat \<times> callback) list" \<comment> \<open>the timers that are set and not cleared\<close>
  nextTimer :: nat \<comment> \<open>the identifier that the next timer gets\<close>
  inherited :: realm \<comment> \<open>the realm of the page: what its values inherit\<close>

record PyloidReadyManager =
  ready :: bool
  readyPromise :: "unit promise_state"
  pollingInterval :: "nat option"
  pollingTimeout :: "nat option"
  checkInterval :: nat
  timeoutDuration :: nat

text \<open>
  The state of a page: the global object (\<open>None\<close> where \<^verbatim>\<open>typeof window\<close> is
  \<^verbatim>\<open>'undefined'\<close>), the singleton manager, the console, the calls of \<^verbatim>\<open>ensureReady\<close> that
  are suspended at \<^verbatim>\<open>await pyloidReadyManager.whenReady()\<close>, the host functions invoked so
  far (each with the value of \<^verbatim>\<open>isReady()\<close> at the moment of the invocation), and the calls
  that were rejected.
\<close>

record page =
  global :: "window option"
  manager :: PyloidReadyManager
  console :: "string list"
  waiting :: "operation list"
  invoked :: "(bool \<times> invocation) list"
  rejected :: "(operation \<times> js_error) list"

definition isReady :: "page \<Rightarrow> bool" where
  "isReady s = ready (manager s)"

definition whenReady :: "page \<Rightarrow> unit promise_state" where
  "whenReady s = readyPromise (manager s)"

definition consoleLog :: "string \<Rightarrow> page \<Rightarrow> page" where
  "consoleLog msg s = s\<lparr>console := console s @ [msg]\<rparr>"

definition resolveReadyPromise :: "page \<Rightarrow> page" where
  \<comment> \<open>settling a promise that is already settled has no effect\<close>
  "resolveReadyPromise s =
     (case readyPromise (manager s) of
        Pending \<Rightarrow> s\<lparr>manager := (manager s)\<lparr>readyPromise := Fulfilled ()\<rparr>\<rparr>
      | _ \<Rightarrow> s)"

definition rejectReadyPromise :: "js_error \<Rightarrow> page \<Rightarrow> page" where
  "rejectReadyPromise e s =
     (case readyPromise (manager s) of
        Pending \<Rightarrow> s\<lparr>manager := (manager s)\<lparr>readyPromise := Rejected e\<rparr>\<rparr>
      | _ \<Rightarrow> s)"

definition setTimer :: "callback \<Rightarrow> window \<Rightarrow> nat \<times> window" where
  \<comment> \<open>\<^verbatim>\<open>window.setInterval\<close> and \<^verbatim>\<open>window.setTimeout\<close>: the identifier, and the window with the timer\<close>
  "setTimer cb w =
     (nextTimer w, w\<lparr>timers := timers w @ [(nextTimer w, cb)], nextTimer := nextTimer w + 1\<rparr>)"

definition clearTimer :: "nat \<Rightarrow> window \<Rightarrow> window" where
  \<comment> \<open>\<^verbatim>\<open>window.clearInterval\<close> and \<^verbatim>\<open>window.clearTimeout\<close>\<close>
  "clearTimer i w = w\<lparr>timers := filter (\<lambda>t. fst t \<noteq> i) (timers w)\<rparr>"

text \<open>
  \<^verbatim>\<open>stopPolling\<close>. A timer identifier is only ever stored by the constructor's browser
  branch, so the global object exists whenever one of the two fields is set.
\<close>

definition stopPolling :: "page \<Rightarrow> page" where
  "stopPolling s =
     (let s1 = (case pollingInterval (manager s) of
                  None \<Rightarrow> s
                | Some i \<Rightarrow> s\<lparr>global := map_option (clearTimer i) (global s),
                              manager := (manager s)\<lparr>pollingInterval := None\<rparr>\<rparr>)
      in (case pollingTimeout (manager s1) of
            None \<Rightarrow> s1
          | Some t \<Rightarrow> s1\<lparr>global := map_option (clearTimer t) (global s1),
                         manager := (manager s1)\<lparr>pollingTimeout := None\<rparr>\<rparr>))"

definition setReady :: "page \<Rightarrow> page" where
  "setReady s =
     (if \<not> ready (manager s) then
        resolveReadyPromise
          (consoleLog ''PyloidReadyManager: Pyloid is ready.''
             (stopPolling (s\<lparr>manager := (manager s)\<lparr>ready := True\<rparr>\<rparr>)))
      else s)"

definition onPollTick :: "page \<Rightarrow> page" where
  \<comment> \<open>the interval callback\<close>
  "onPollTick s =
     (case global s of
        None \<Rightarrow> s
      | Some w \<Rightarrow>
          if truthy (PYLOID w)
          then setReady (stopPolling (consoleLog ''PyloidReadyManager: __PYLOID__ found via polling.'' s))
          else s)"

definition onPollTimeout :: "page \<Rightarrow> page" where
  \<comment> \<open>the timeout callback\<close>
  "onPollTimeout s =
     (if \<not> ready (manager s) then
        rejectReadyPromise (Error ''Pyloid initialization timed out.'')
          (stopPolling
             (consoleLog (''PyloidReadyManager: Polling timed out after ''
                  @ showNat (timeoutDuration (manager s)) @ ''ms. __PYLOID__ was not injected.'') s))
      else s)"

definition newPyloidReadyManager :: "window option \<Rightarrow> nat \<Rightarrow> nat \<Rightarrow> page" where
  \<comment> \<open>the constructor, run in a page with the given global object\<close>
  "newPyloidReadyManager g ci td =
     (let s0 = \<lparr>global = g,
                manager = \<lparr>ready = False, readyPromise = Pending, pollingInterval = None,
                           pollingTimeout = None, checkInterval = ci, timeoutDuration = td\<rparr>,
                console = [], waiting = [], invoked = [], rejected = []\<rparr>
      in case g of
           Some w \<Rightarrow>
             if truthy (PYLOID w)
             then setReady (consoleLog ''PyloidReadyManager: __PYLOID__ found immediately.'' s0)
             else
               (let s1 = consoleLog (''PyloidReadyManager: __PYLOID__ not found. Starting polling every ''
                            @ showNat ci @ ''ms.'') s0;
                    (i, w1) = setTimer PollTick w;
                    (t, w2) = setTimer PollTimeout w1
                in s1\<lparr>global := Some w2,
                      manager := (manager s1)\<lparr>pollingInterval := Some i, pollingTimeout := Some t\<rparr>\<rparr>)
         | None \<Rightarrow>
             rejectReadyPromise (Error ''Window object not found.'')
               (consoleLog ''PyloidReadyManager: window object is not available.'' s0))"

definition pyloidReadyManager :: "window option \<Rightarrow> page" where
  \<comment> \<open>the singleton: \<^verbatim>\<open>new PyloidReadyManager()\<close> with the default interval and timeout\<close>
  "pyloidReadyManager g = newPyloidReadyManager g 20 10000"

text \<open>
  The function \<open>fn\<close> that an operation hands to \<^verbatim>\<open>ensureReady\<close>, run now: what it invokes,
  or the error it throws.
\<close>

definition thunk :: "operation \<Rightarrow> page \<Rightarrow> js_error + invocation" where
  "thunk opn s =
     (case global s of
        None \<Rightarrow> Inl ReferenceError
      | Some w \<Rightarrow>
          (case opn of
             Api b \<Rightarrow> callMethod (inherited w) (PYLOID w) (fst (bridgeCall b)) (snd (bridgeCall b))
           | Ipc path args \<Rightarrow> callIPC_body (inherited w) (ipc w) path args))"

definition runThunk :: "operation \<Rightarrow> page \<Rightarrow> page" where
  "runThunk opn s =
     (case thunk opn s of
        Inl e \<Rightarrow> s\<lparr>rejected := rejected s @ [(opn, e)]\<rparr>
      | Inr c \<Rightarrow> s\<lparr>invoked := invoked s @ [(isReady s, c)]\<rparr>)"

definition ssrMessage :: "operation \<Rightarrow> string" where
  "ssrMessage opn =
     (case opn of
        Api b \<Rightarrow> ''Pyloid API is not available in server-side rendering environment.''
      | Ipc path args \<Rightarrow> ''IPC is not available in server-side rendering environment.'')"

text \<open>
  \<^verbatim>\<open>ensureReady(fn)\<close> up to its first suspension. Awaiting a promise that is already
  settled continues (or throws) without any other code of the page running in between.
\<close>

definition ensureReady :: "operation \<Rightarrow> page \<Rightarrow> page" where
  "ensureReady opn s =
     (if global s = None then s\<lparr>rejected := rejected s @ [(opn, Error (ssrMessage opn))]\<rparr>
      else if \<not> isReady s then
        (case whenReady s of
           Pending \<Rightarrow> s\<lparr>waiting := waiting s @ [opn]\<rparr>
         | Fulfilled u \<Rightarrow> runThunk opn s
         | Rejected e \<Rightarrow> s\<lparr>rejected := rejected s @ [(opn, e)]\<rparr>)
      else runThunk opn s)"

text \<open>
  The continuations of the suspended calls, run in the order of their suspension once the
  ready promise is settled.
\<close>

definition resume :: "page \<Rightarrow> page" where
  "resume s =
     (case whenReady s of
        Pending \<Rightarrow> s
      | Fulfilled u \<Rightarrow> fold runThunk (waiting s) (s\<lparr>waiting := []\<rparr>)
      | Rejected e \<Rightarrow> s\<lparr>waiting := [], rejected := rejected s @ map (\<lambda>opn. (opn, e)) (waiting s)\<rparr>)"

text \<open>
  What can happen in a page: a timer fires, the host injects \<^verbatim>\<open>window.__PYLOID__\<close> or
  \<^verbatim>\<open>window.ipc\<close>, somebody calls the public method \<^verbatim>\<open>setReady\<close>, the application calls
  an operation. Time is not measured: timers may fire in any order, which includes the
  orders that the delays allow.
\<close>

datatype event =
    Fire nat
  | Inject jsval
  | InjectIpc jsval
  | CallSetReady
  | Call operation

definition fire :: "nat \<Rightarrow> page \<Rightarrow> page" where
  "fire i s =
     (case global s of
        None \<Rightarrow> s
      | Some w \<Rightarrow>
          (case map_of (timers w) i of
             None \<Rightarrow> s
           | Some PollTick \<Rightarrow> onPollTick s
           | Some PollTimeout \<Rightarrow> onPollTimeout (s\<lparr>global := Some (clearTimer i w)\<rparr>)))"

fun step :: "event \<Rightarrow> page \<Rightarrow> page" where
  "step (Fire i) s = resume (fire i s)"
| "step (Inject v) s = s\<lparr>global := map_option (\<lambda>w. w\<lparr>PYLOID := v\<rparr>) (global s)\<rparr>"
| "step (InjectIpc v) s = s\<lparr>global := map_option (\<lambda>w. w\<lparr>ipc := v\<rparr>) (global s)\<rparr>"
| "step CallSetReady s = resume (setReady s)"
| "step (Call opn) s = ensureReady opn s"

definition run :: "event list \<Rightarrow> page \<Rightarrow> page" where
  "run evs s = fold step evs s"

text \<open>
  The global object of a page in which no timer has been set yet, with the given realm and
  the given values of \<^verbatim>\<open>window.__PYLOID__\<close> and \<^verbatim>\<open>window.ipc\<close> (\<open>JUndefined\<close> before the host
  injects them).
\<close>

definition initialWindow :: "realm \<Rightarrow> jsval \<Rightarrow> jsval \<Rightarrow> window" where
  "initialWindow inh p i = \<lparr>PYLOID = p, ipc = i, timers = [], nextTimer = 1, inherited = inh\<rparr>"

section \<open>The dispatcher's walk, stated on the list of segments\<close>

text \<open>
  A description of the loop of \<^verbatim>\<open>callIPC\<close> by recursion on the segments that are indexed:
  the value reached, or the index at which the value to be indexed is not an object. It is
  compared with \<open>navigate\<close> below.
\<close>

fun firstNonObject :: "realm \<Rightarrow> jsval \<Rightarrow> string list \<Rightarrow> nat \<Rightarrow> nat + jsval" where
  "firstNonObject inh v [] j = Inr v"
| "firstNonObject inh v (k # ks) j =
     (if truthy v \<and> typeof v = ''object'' then firstNonObject inh (readProp inh v k) ks (j + 1)
      else Inl j)"

definition notAnObject :: "string \<Rightarrow> string list \<Rightarrow> nat \<Rightarrow> js_error" where
  "notAnObject path parts j =
     Error (''IPC path '' @ apostrophe @ path @ apostrophe @ '' is not accessible. ''
            @ apostrophe @ joinWith ''.'' (take (j + 1) parts) @ apostrophe @ '' is not an object.'')"

definition notAFunction :: "string \<Rightarrow> js_error" where
  "notAFunction path =
     Error (''IPC method '' @ apostrophe @ path @ apostrophe @ '' is not available or not a function.'')"

section \<open>The fetch module\<close>

subsection \<open>URL building\<close>

definition dropTrailingSlash :: "string \<Rightarrow> string" where
  \<comment> \<open>\<^verbatim>\<open>s.replace(/\/$/, '')\<close>: the pattern only matches a slash at the very end\<close>
  "dropTrailingSlash s = (if s \<noteq> [] \<and> last s = CHR ''/'' then butlast s else s)"

definition dropLeadingSlash :: "string \<Rightarrow> string" where
  \<comment> \<open>\<^verbatim>\<open>s.replace(/^\//, '')\<close>: the pattern only matches a slash at the very start\<close>
  "dropLeadingSlash s = (case s of [] \<Rightarrow> [] | c # r \<Rightarrow> if c = CHR ''/'' then r else s)"

definition buildUrl :: "string \<Rightarrow> string \<Rightarrow> string" where
  "buildUrl base path =
     (if startsWith path ''http://'' \<or> startsWith path ''https://'' then path
      else (let baseUrl = dropTrailingSlash base;
                cleanPath = dropLeadingSlash path
            in baseUrl @ ''/'' @ cleanPath))"

subsection \<open>The options handed to the platform's fetch\<close>

text \<open>
  An object literal \<^verbatim>\<open>{...obj, k: v}\<close> on the property list of \<open>obj\<close>: an existing property
  \<open>k\<close> gets the new value in its place, otherwise the property is added at the end.
\<close>

fun setProp :: "string \<Rightarrow> jsval \<Rightarrow> (string \<times> jsval) list \<Rightarrow> (string \<times> jsval) list" where
  "setProp k v [] = [(k, v)]"
| "setProp k v (p # ps) = (if fst p = k then (k, v) # ps else p # setProp k v ps)"

definition nullable :: "string option \<Rightarrow> jsval" where
  \<comment> \<open>a variable of type \<^verbatim>\<open>string | null\<close> as a value\<close>
  "nullable x = (case x of None \<Rightarrow> JNull | Some s \<Rightarrow> JStr s)"

text \<open>
  \<^verbatim>\<open>{...options, headers: {...options.headers, 'X-Pyloid-Window-Id': windowId}}\<close>. The
  options are given by their property list; the spread of \<^verbatim>\<open>options.headers\<close> copies the
  properties of that value (none for \<^verbatim>\<open>undefined\<close>, and none for a value that keeps its
  entries elsewhere, as a \<^verbatim>\<open>Headers\<close> instance does).
\<close>

definition enhancedOptions :: "(string \<times> jsval) list \<Rightarrow> string option \<Rightarrow> (string \<times> jsval) list" where
  "enhancedOptions opts wid =
     setProp ''headers''
       (JObj (setProp ''X-Pyloid-Window-Id'' (nullable wid) (props (getProp (JObj opts) ''headers''))))
       opts"

subsection \<open>The caches and their lazy initialization\<close>

definition unset :: "string option \<Rightarrow> bool" where
  \<comment> \<open>\<^verbatim>\<open>!x\<close> for a variable of type \<^verbatim>\<open>string | null\<close>: \<^verbatim>\<open>null\<close> and the empty string are falsy\<close>
  "unset x = (x = None \<or> x = Some [])"

text \<open>
  The state of a call of \<^verbatim>\<open>ensureServerUrlInitialized\<close> or \<^verbatim>\<open>ensureWindowIdInitialized\<close>:
  suspended at its \<^verbatim>\<open>await\<close> of the promise with the given reference, returned, or thrown.
\<close>

datatype ensure_state = Awaiting nat | Completed | Threw js_error

text \<open>A call \<^verbatim>\<open>globalThis.fetch(completeUrl, enhancedOptions)\<close>.\<close>

record request =
  requestUrl :: string
  requestInit :: "(string \<times> jsval) list"

text \<open>
  A call of the module's \<^verbatim>\<open>fetch\<close> that is suspended at \<^verbatim>\<open>await Promise.all([...])\<close>: its
  arguments (\<open>input\<close> is \<^verbatim>\<open>url.toString()\<close>) and the states of the two calls in the array.
\<close>

record fetch_call =
  input :: string
  options :: "(string \<times> jsval) list"
  serverUrlReady :: ensure_state
  windowIdReady :: ensure_state

text \<open>
  The module: its four variables; the promises that its \<^verbatim>\<open>async\<close> initializers have
  returned (a promise is referred to by its index); the initializers that are suspended at
  \<^verbatim>\<open>await baseAPI.getServerUrl()\<close> or \<^verbatim>\<open>await baseAPI.getWindowId()\<close>, each named by the
  promise it returned; the number of calls of the two host resolvers so far; the suspended
  calls of \<^verbatim>\<open>fetch\<close>; the requests made; and the calls of \<^verbatim>\<open>fetch\<close> that were rejected
  before a request was made (with their \<open>input\<close>).
\<close>

record fetch_module =
  serverUrl :: "string option"
  serverUrlPromise :: "nat option"
  windowId :: "string option"
  windowIdPromise :: "nat option"
  promises :: "string promise_state list"
  serverUrlLookups :: "nat list"
  windowIdLookups :: "nat list"
  getServerUrlCalls :: nat
  getWindowIdCalls :: nat
  suspended :: "fetch_call list"
  requests :: "request list"
  failures :: "(string \<times> js_error) list"

definition fetchModule :: fetch_module where
  \<comment> \<open>the module when it is loaded\<close>
  "fetchModule =
     \<lparr>serverUrl = None, serverUrlPromise = None, windowId = None, windowIdPromise = None,
      promises = [], serverUrlLookups = [], windowIdLookups = [],
      getServerUrlCalls = 0, getWindowIdCalls = 0, suspended = [], requests = [], failures = []\<rparr>"

definition promiseState :: "fetch_module \<Rightarrow> nat \<Rightarrow> string promise_state" where
  "promiseState s p = (if p < length (promises s) then promises s ! p else Pending)"

text \<open>
  \<^verbatim>\<open>initializeServerUrl()\<close> up to its \<^verbatim>\<open>await\<close>: it calls the host resolver and returns a
  new pending promise. \<open>serverUrlArrived\<close> is the rest of the function, run when the
  resolver's promise is settled: \<open>Inr url\<close> for a value, \<open>Inl reason\<close> for a rejection,
  where \<open>reason\<close> is the text that \<^verbatim>\<open>`${error}`\<close> gives for the rejection's value.
\<close>

definition initializeServerUrl :: "fetch_module \<Rightarrow> nat \<times> fetch_module" where
  "initializeServerUrl s =
     (let p = length (promises s)
      in (p, s\<lparr>promises := promises s @ [Pending],
               serverUrlLookups := serverUrlLookups s @ [p],
               getServerUrlCalls := getServerUrlCalls s + 1\<rparr>))"

definition serverUrlArrived :: "nat \<Rightarrow> string + string \<Rightarrow> fetch_module \<Rightarrow> fetch_module" where
  "serverUrlArrived p r s =
     (case r of
        Inr url \<Rightarrow>
          s\<lparr>serverUrl := Some url,
            promises := (promises s)[p := Fulfilled url],
            serverUrlLookups := removeAll p (serverUrlLookups s)\<rparr>
      | Inl reason \<Rightarrow>
          s\<lparr>promises := (promises s)[p := Rejected (Error (''Failed to get server URL: '' @ reason))],
            serverUrlLookups := removeAll p (serverUrlLookups s)\<rparr>)"

definition initializeWindowId :: "fetch_module \<Rightarrow> nat \<times> fetch_module" where
  "initializeWindowId s =
     (let p = length (promises s)
      in (p, s\<lparr>promises := promises s @ [Pending],
               windowIdLookups := windowIdLookups s @ [p],
               getWindowIdCalls := getWindowIdCalls s + 1\<rparr>))"

definition windowIdArrived :: "nat \<Rightarrow> string + string \<Rightarrow> fetch_module \<Rightarrow> fetch_module" where
  "windowIdArrived p r s =
     (case r of
        Inr wid \<Rightarrow>
          s\<lparr>windowId := Some wid,
            promises := (promises s)[p := Fulfilled wid],
            windowIdLookups := removeAll p (windowIdLookups s)\<rparr>
      | Inl reason \<Rightarrow>
          s\<lparr>promises := (promises s)[p := Rejected (Error (''Failed to get window ID: '' @ reason))],
            windowIdLookups := removeAll p (windowIdLookups s)\<rparr>)"

text \<open>
  \<^verbatim>\<open>ensureServerUrlInitialized()\<close> up to its \<^verbatim>\<open>await\<close>, and \<open>serverUrlAwaited\<close>, the state of
  such a call given the state of the promise it awaits: the rest of the function runs once
  the promise is settled.
\<close>

definition ensureServerUrlInitialized :: "fetch_module \<Rightarrow> ensure_state \<times> fetch_module" where
  "ensureServerUrlInitialized s =
     (if unset (serverUrl s) then
        (case serverUrlPromise s of
           None \<Rightarrow>
             (let (p, s1) = initializeServerUrl s
              in (Awaiting p, s1\<lparr>serverUrlPromise := Some p\<rparr>))
         | Some p \<Rightarrow> (Awaiting p, s))
      else (Completed, s))"

definition serverUrlAwaited :: "fetch_module \<Rightarrow> ensure_state \<Rightarrow> ensure_state" where
  "serverUrlAwaited s e =
     (case e of
        Awaiting p \<Rightarrow>
          (case promiseState s p of
             Pending \<Rightarrow> Awaiting p
           | Rejected err \<Rightarrow> Threw err
           | Fulfilled v \<Rightarrow>
               if unset (serverUrl s) then Threw (Error ''Server URL could not be initialized.'')
               else Completed)
      | _ \<Rightarrow> e)"

definition ensureWindowIdInitialized :: "fetch_module \<Rightarrow> ensure_state \<times> fetch_module" where
  "ensureWindowIdInitialized s =
     (if unset (windowId s) then
        (case windowIdPromise s of
           None \<Rightarrow>
             (let (p, s1) = initializeWindowId s
              in (Awaiting p, s1\<lparr>windowIdPromise := Some p\<rparr>))
         | Some p \<Rightarrow> (Awaiting p, s))
      else (Completed, s))"

definition windowIdAwaited :: "fetch_module \<Rightarrow> ensure_state \<Rightarrow> ensure_state" where
  "windowIdAwaited s e =
     (case e of
        Awaiting p \<Rightarrow>
          (case promiseState s p of
             Pending \<Rightarrow> Awaiting p
           | Rejected err \<Rightarrow> Threw err
           | Fulfilled v \<Rightarrow>
               if unset (windowId s) then Threw (Error ''Window ID could not be initialized.'')
               else Completed)
      | _ \<Rightarrow> e)"

text \<open>
  \<^verbatim>\<open>Promise.all\<close> of the two calls: rejected with the error of the call that throws first
  (the first of the array when both throw in the same turn), fulfilled when both have
  returned.
\<close>

definition promiseAll :: "ensure_state \<Rightarrow> ensure_state \<Rightarrow> ensure_state" where
  "promiseAll a b =
     (case a of
        Threw e \<Rightarrow> Threw e
      | _ \<Rightarrow>
          (case b of
             Threw e \<Rightarrow> Threw e
           | Awaiting p \<Rightarrow> Awaiting p
           | Completed \<Rightarrow> a))"

text \<open>
  The rest of \<^verbatim>\<open>fetch\<close> after \<^verbatim>\<open>Promise.all\<close> is fulfilled. Both variables hold non-empty
  strings then; \<^verbatim>\<open>buildUrl\<close> would throw a \<^verbatim>\<open>TypeError\<close> on \<^verbatim>\<open>null\<close>.
\<close>

definition sendRequest :: "fetch_call \<Rightarrow> fetch_module \<Rightarrow> fetch_module" where
  "sendRequest c s =
     (case serverUrl s of
        None \<Rightarrow> s\<lparr>failures := failures s @ [(input c, TypeError)]\<rparr>
      | Some base \<Rightarrow>
          s\<lparr>requests := requests s @
               [\<lparr>requestUrl = buildUrl base (input c),
                 requestInit = enhancedOptions (options c) (windowId s)\<rparr>]\<rparr>)"

definition advance :: "fetch_module \<Rightarrow> fetch_call \<Rightarrow> fetch_call" where
  "advance s c =
     c\<lparr>serverUrlReady := serverUrlAwaited s (serverUrlReady c),
       windowIdReady := windowIdAwaited s (windowIdReady c)\<rparr>"

definition continue :: "fetch_call \<Rightarrow> fetch_module \<Rightarrow> fetch_module" where
  "continue c s =
     (case promiseAll (serverUrlReady c) (windowIdReady c) of
        Awaiting p \<Rightarrow> s\<lparr>suspended := suspended s @ [c]\<rparr>
      | Threw e \<Rightarrow> s\<lparr>failures := failures s @ [(input c, e)]\<rparr>
      | Completed \<Rightarrow> sendRequest c s)"

text \<open>
  The continuations of the suspended calls, in the order of the calls. They change neither
  the variables nor the promises, so each of them sees the state in which the first one
  runs.
\<close>

definition settle :: "fetch_module \<Rightarrow> fetch_module" where
  "settle s = fold continue (map (advance s) (suspended s)) (s\<lparr>suspended := []\<rparr>)"

text \<open>
  What can happen to the module: the application calls \<^verbatim>\<open>fetch(url, options)\<close>; the promise
  of a host resolver that an initializer awaits is settled. The initializer is named by the
  promise it returned.
\<close>

datatype fetch_event =
    Fetch string "(string \<times> jsval) list"
  | ServerUrlResult nat "string + string"
  | WindowIdResult nat "string + string"

fun fetchStep :: "fetch_event \<Rightarrow> fetch_module \<Rightarrow> fetch_module" where
  "fetchStep (Fetch url opts) s =
     (let (a, s1) = ensureServerUrlInitialized s;
          (b, s2) = ensureWindowIdInitialized s1
      in settle (s2\<lparr>suspended := suspended s2 @
                      [\<lparr>input = url, options = opts, serverUrlReady = a, windowIdReady = b\<rparr>]\<rparr>))"
| "fetchStep (ServerUrlResult p r) s =
     (if p \<in> set (serverUrlLookups s) then settle (serverUrlArrived p r s) else s)"
| "fetchStep (WindowIdResult p r) s =
     (if p \<in> set (windowIdLookups s) then settle (windowIdArrived p r s) else s)"

definition fetchRun :: "fetch_event list \<Rightarrow> fetch_module \<Rightarrow> fetch_module" where
  "fetchRun evs s = fold fetchStep evs s"

section \<open>The RPC client\<close>

text \<open>
  The request of the wire format, as the interface \<^verbatim>\<open>JsonRpcRequest\<close> declares it. The field
  \<^verbatim>\<open>id\<close> is called \<open>id'\<close> here, \<open>id\<close> being the identity function of HOL.
\<close>

record JsonRpcMessage =
  jsonrpc :: string
  id' :: "string option"

record JsonRpcRequest = JsonRpcMessage +
  "method" :: string
  params :: jsval

text \<open>
  The response is what \<^verbatim>\<open>response.json()\<close> gives: any JSON value, whatever the interface
  \<^verbatim>\<open>JsonRpcResponse\<close> declares. A number is the value of the double that the parser made
  of the text; an object is the table of its members, a later member of the same name having
  replaced an earlier one.
\<close>

datatype json =
    JsonNull
  | JsonBool bool
  | JsonNum rat
  | JsonStr string
  | JsonArr "json list"
  | JsonObj "(string \<times> json) list"

text \<open>
  \<^verbatim>\<open>d[k]\<close> for a parsed value \<open>d\<close> other than \<^verbatim>\<open>null\<close> and one of the four names that the code
  reads (\<^verbatim>\<open>error\<close>, \<^verbatim>\<open>message\<close>, \<^verbatim>\<open>code\<close> and \<^verbatim>\<open>result\<close>); \<open>None\<close> is \<^verbatim>\<open>undefined\<close>. No
  built-in prototype has a property of one of these names, and none of them is an index or
  \<^verbatim>\<open>length\<close>, so the read finds a member of an object and nothing on any other value.
\<close>

definition member :: "json \<Rightarrow> string \<Rightarrow> json option" where
  "member d k = (case d of JsonObj ps \<Rightarrow> map_of ps k | _ \<Rightarrow> None)"

fun jsonTruthy :: "json option \<Rightarrow> bool" where
  "jsonTruthy None = False"
| "jsonTruthy (Some JsonNull) = False"
| "jsonTruthy (Some (JsonBool b)) = b"
| "jsonTruthy (Some (JsonNum x)) = (x \<noteq> 0)"
| "jsonTruthy (Some (JsonStr s)) = (s \<noteq> [])"
| "jsonTruthy (Some (JsonArr xs)) = True"
| "jsonTruthy (Some (JsonObj ps)) = True"

text \<open>
  The text that a template literal makes of a value. For \<^verbatim>\<open>undefined\<close>, \<^verbatim>\<open>null\<close>, a boolean,
  a string and an integer of at most \<open>2\<^sup>5\<^sup>3\<close> in magnitude it is fixed by the language: such
  an integer is printed with all its decimal digits. For any other number, for an array and
  for an object it is the work of built-in functions, which are not part of the repository
  and may throw: \<open>conv\<close> stands for them.
\<close>

definition templateText :: "(json \<Rightarrow> js_error + string) \<Rightarrow> json option \<Rightarrow> js_error + string" where
  "templateText conv v =
     (case v of
        None \<Rightarrow> Inr ''undefined''
      | Some JsonNull \<Rightarrow> Inr ''null''
      | Some (JsonBool b) \<Rightarrow> Inr (if b then ''true'' else ''false'')
      | Some (JsonStr s) \<Rightarrow> Inr s
      | Some (JsonNum x) \<Rightarrow>
          if of_int \<lfloor>x\<rfloor> = x \<and> \<bar>x\<bar> \<le> 2 ^ 53 then Inr (showInt \<lfloor>x\<rfloor>) else conv (JsonNum x)
      | Some j \<Rightarrow> conv j)"

text \<open>
  The class. The field \<^verbatim>\<open>windowId\<close> is called \<open>clientWindowId\<close>: the fetch module has a
  variable of the same name.
\<close>

record RpcClient =
  endpoint :: "string option"
  endpointPromise :: "nat option"
  clientWindowId :: "string option"

text \<open>
  A client at work: the object; the promises that \<^verbatim>\<open>initializeEndpoint\<close> (or the
  constructor) has made; the calls of \<^verbatim>\<open>initializeEndpoint\<close> that are suspended, each named
  by the promise it returned, at \<^verbatim>\<open>await baseAPI.getServerUrl()\<close> (\<open>None\<close>) or, with the
  URL it has received, at \<^verbatim>\<open>await baseAPI.getWindowId()\<close>; the number of calls of the two
  host resolvers so far; the calls of \<^verbatim>\<open>call\<close> that are suspended at
  \<^verbatim>\<open>await this.endpointPromise\<close>, with the promise they await and their arguments; the
  requests posted, with the URL they were posted to; and the calls that were rejected before
  a request was posted.
\<close>

record rpc =
  client :: RpcClient
  rpcPromises :: "string promise_state list"
  initializing :: "(nat \<times> string option) list"
  serverUrlCalls :: nat
  windowIdCalls :: nat
  calling :: "(nat \<times> string \<times> jsval) list"
  posted :: "(string \<times> JsonRpcRequest) list"
  refused :: "((string \<times> jsval) \<times> js_error) list"

definition lazyClient :: rpc where
  \<comment> \<open>a client whose constructor has assigned nothing\<close>
  "lazyClient =
     \<lparr>client = \<lparr>endpoint = None, endpointPromise = None, clientWindowId = None\<rparr>,
      rpcPromises = [], initializing = [], serverUrlCalls = 0, windowIdCalls = 0,
      calling = [], posted = [], refused = []\<rparr>"

definition newRpcClient :: "string option \<Rightarrow> rpc" where
  \<comment> \<open>the constructor; \<^verbatim>\<open>if (initialEndpoint)\<close> is false for \<^verbatim>\<open>undefined\<close> and for the empty string\<close>
  "newRpcClient initialEndpoint =
     (case initialEndpoint of
        None \<Rightarrow> lazyClient
      | Some e \<Rightarrow>
          if e = [] then lazyClient
          else lazyClient\<lparr>client := \<lparr>endpoint = Some e, endpointPromise = Some 0, clientWindowId = None\<rparr>,
                          rpcPromises := [Fulfilled e]\<rparr>)"

definition rpcPromiseState :: "rpc \<Rightarrow> nat \<Rightarrow> string promise_state" where
  "rpcPromiseState s p = (if p < length (rpcPromises s) then rpcPromises s ! p else Pending)"

text \<open>
  \<^verbatim>\<open>initializeEndpoint()\<close> in its three parts: up to the first \<^verbatim>\<open>await\<close>; from there to the
  second one, or to the \<^verbatim>\<open>throw\<close> of the \<^verbatim>\<open>catch\<close> block; and from the second \<^verbatim>\<open>await\<close> to
  the end. The results of the host resolvers are given as for the fetch module.
\<close>

definition initializeEndpoint :: "rpc \<Rightarrow> nat \<times> rpc" where
  "initializeEndpoint s =
     (let p = length (rpcPromises s)
      in (p, s\<lparr>rpcPromises := rpcPromises s @ [Pending],
               initializing := initializing s @ [(p, None)],
               serverUrlCalls := serverUrlCalls s + 1\<rparr>))"

definition endpointArrived :: "nat \<Rightarrow> string + string \<Rightarrow> rpc \<Rightarrow> rpc" where
  "endpointArrived p r s =
     (case r of
        Inr url \<Rightarrow>
          s\<lparr>client := (client s)\<lparr>endpoint := Some url\<rparr>,
            initializing := map (\<lambda>a. if a = (p, None) then (p, Some url) else a) (initializing s),
            windowIdCalls := windowIdCalls s + 1\<rparr>
      | Inl reason \<Rightarrow>
          s\<lparr>rpcPromises := (rpcPromises s)[p := Rejected (Error (''Failed to get RPC endpoint: '' @ reason))],
            initializing := removeAll (p, None) (initializing s)\<rparr>)"

definition sessionArrived :: "nat \<Rightarrow> string \<Rightarrow> string + string \<Rightarrow> rpc \<Rightarrow> rpc" where
  "sessionArrived p url r s =
     (case r of
        Inr wid \<Rightarrow>
          s\<lparr>client := (client s)\<lparr>clientWindowId := Some wid\<rparr>,
            rpcPromises := (rpcPromises s)[p := Fulfilled url],
            initializing := removeAll (p, Some url) (initializing s)\<rparr>
      | Inl reason \<Rightarrow>
          s\<lparr>rpcPromises := (rpcPromises s)[p := Rejected (Error (''Failed to get RPC endpoint: '' @ reason))],
            initializing := removeAll (p, Some url) (initializing s)\<rparr>)"

text \<open>
  The request that \<^verbatim>\<open>call(method, params)\<close> builds; omitted \<^verbatim>\<open>params\<close> are \<^verbatim>\<open>undefined\<close>.
\<close>

definition buildRequest :: "RpcClient \<Rightarrow> string \<Rightarrow> jsval \<Rightarrow> JsonRpcRequest" where
  "buildRequest c m ps =
     \<lparr>jsonrpc = ''2.0'', id' = clientWindowId c, method = m,
      params = (if ps = JUndefined then JObj [] else ps)\<rparr>"

text \<open>
  \<^verbatim>\<open>call\<close> from the second check of \<^verbatim>\<open>ensureEndpointInitialized\<close> to the call of the
  platform's \<^verbatim>\<open>fetch\<close>.
\<close>

definition postRequest :: "string \<Rightarrow> jsval \<Rightarrow> rpc \<Rightarrow> rpc" where
  "postRequest m ps s =
     (case endpoint (client s) of
        None \<Rightarrow> s\<lparr>refused := refused s @ [((m, ps), Error ''RPC endpoint could not be initialized.'')]\<rparr>
      | Some url \<Rightarrow>
          if url = [] then
            s\<lparr>refused := refused s @ [((m, ps), Error ''RPC endpoint could not be initialized.'')]\<rparr>
          else s\<lparr>posted := posted s @ [(url, buildRequest (client s) m ps)]\<rparr>)"

text \<open>
  \<^verbatim>\<open>call\<close> up to the \<^verbatim>\<open>await\<close> in \<^verbatim>\<open>ensureEndpointInitialized\<close>: the promise that the call
  awaits, or \<open>None\<close> when the endpoint is set and nothing is awaited.
\<close>

definition ensureEndpointInitialized :: "rpc \<Rightarrow> nat option \<times> rpc" where
  "ensureEndpointInitialized s =
     (if unset (endpoint (client s)) then
        (case endpointPromise (client s) of
           None \<Rightarrow>
             (let (p, s1) = initializeEndpoint s
              in (Some p, s1\<lparr>client := (client s1)\<lparr>endpointPromise := Some p\<rparr>\<rparr>))
         | Some p \<Rightarrow> (Some p, s))
      else (None, s))"

text \<open>The continuation of a call that awaits the promise \<open>p\<close>.\<close>

definition resumeCall :: "nat \<times> string \<times> jsval \<Rightarrow> rpc \<Rightarrow> rpc" where
  "resumeCall c s =
     (case c of (p, m, ps) \<Rightarrow>
        (case rpcPromiseState s p of
           Pending \<Rightarrow> s\<lparr>calling := calling s @ [c]\<rparr>
         | Rejected e \<Rightarrow> s\<lparr>refused := refused s @ [((m, ps), e)]\<rparr>
         | Fulfilled v \<Rightarrow> postRequest m ps s))"

definition rpcSettle :: "rpc \<Rightarrow> rpc" where
  "rpcSettle s = fold resumeCall (calling s) (s\<lparr>calling := []\<rparr>)"

datatype rpc_event =
    RpcCall string jsval
  | RpcServerUrlResult nat "string + string"
  | RpcWindowIdResult nat "string + string"

fun rpcStep :: "rpc_event \<Rightarrow> rpc \<Rightarrow> rpc" where
  "rpcStep (RpcCall m ps) s =
     (case ensureEndpointInitialized s of
        (None, s1) \<Rightarrow> postRequest m ps s1
      | (Some p, s1) \<Rightarrow> rpcSettle (s1\<lparr>calling := calling s1 @ [(p, m, ps)]\<rparr>))"
| "rpcStep (RpcServerUrlResult p r) s =
     (if (p, None) \<in> set (initializing s) then rpcSettle (endpointArrived p r s) else s)"
| "rpcStep (RpcWindowIdResult p r) s =
     (case map_of (initializing s) p of
        Some (Some url) \<Rightarrow> rpcSettle (sessionArrived p url r s)
      | _ \<Rightarrow> s)"

definition rpcRun :: "rpc_event list \<Rightarrow> rpc \<Rightarrow> rpc" where
  "rpcRun evs s = fold rpcStep evs s"

text \<open>
  The end of \<^verbatim>\<open>call\<close>: what the platform's \<^verbatim>\<open>fetch\<close> and \<^verbatim>\<open>response.json()\<close> give, and
  what the call then returns or throws.
\<close>

datatype reply = Unreachable js_error | Unparsable js_error | Parsed json

text \<open>
  \<open>finishCall\<close> is the code after the two \<^verbatim>\<open>await\<close>s. The read \<^verbatim>\<open>data.error\<close> throws a
  \<^verbatim>\<open>TypeError\<close> when \<^verbatim>\<open>data\<close> is \<^verbatim>\<open>null\<close>. The template literal reads and converts the
  message first and the code second. The value returned is \<^verbatim>\<open>data.result\<close>, \<open>None\<close> standing
  for \<^verbatim>\<open>undefined\<close>.
\<close>

definition finishCall :: "(json \<Rightarrow> js_error + string) \<Rightarrow> reply \<Rightarrow> js_error + json option" where
  "finishCall conv r =
     (case r of
        Unreachable e \<Rightarrow> Inl e
      | Unparsable e \<Rightarrow> Inl e
      | Parsed d \<Rightarrow>
          if d = JsonNull then Inl TypeError
          else
            (case member d ''error'' of
               None \<Rightarrow> Inr (member d ''result'')
             | Some err \<Rightarrow>
                 if jsonTruthy (Some err) then
                   (case templateText conv (member err ''message'') of
                      Inl e \<Rightarrow> Inl e
                    | Inr m \<Rightarrow>
                        (case templateText conv (member err ''code'') of
                           Inl e \<Rightarrow> Inl e
                         | Inr c \<Rightarrow> Inl (Error (''RPC Error: '' @ m @ '' (Code: '' @ c @ '')''))))
                 else Inr (member d ''result'')))"

section \<open>Concrete pages and hosts used in examples\<close>

definition exampleBridge :: jsval where
  \<comment> \<open>a host bridge with two of its functions\<close>
  "exampleBridge = JObj [(''getData'', JFun 1 []), (''setTitle'', JFun 2 [])]"

definition exampleIpc :: jsval where
  \<comment> \<open>\<^verbatim>\<open>window.ipc = { window: { setTitle: f } }\<close>\<close>
  "exampleIpc = JObj [(''window'', JObj [(''setTitle'', JFun 7 [])])]"

definition exampleRealm :: realm where
  \<comment> \<open>a realm in which every value inherits \<^verbatim>\<open>toString\<close>, a string also has \<^verbatim>\<open>toUpperCase\<close>,
      and nothing else is inherited\<close>
  "exampleRealm v k =
     (if k = ''toString'' then JFun 100 []
      else if typeof v = ''string'' \<and> k = ''toUpperCase'' then JFun 101 []
      else JUndefined)"

definition pollingPage :: page where
  \<comment> \<open>the page after the module is loaded, before the host has injected anything\<close>
  "pollingPage = pyloidReadyManager (Some (initialWindow exampleRealm JUndefined JUndefined))"

definition staticBridge :: jsval where
  \<comment> \<open>\<^verbatim>\<open>window.ipc = { Window: F }\<close> where \<open>F\<close> is a function (a class, say) with a function
      \<^verbatim>\<open>setTitle\<close> as a property\<close>
  "staticBridge = JObj [(''Window'', JFun 1 [(''setTitle'', JFun 2 [])])]"

definition readyPage :: page where
  \<comment> \<open>a page in which the host has injected both objects before the module is loaded\<close>
  "readyPage = pyloidReadyManager (Some (initialWindow exampleRealm exampleBridge exampleIpc))"

section \<open>Predicates on pages\<close>

definition gate_inv :: "page \<Rightarrow> bool" where
  "gate_inv s =
     ((readyPromise (manager s) = Fulfilled () \<longrightarrow> ready (manager s))
      \<and> (\<forall>e \<in> set (invoked s). fst e))"

definition known_timers :: "page \<Rightarrow> bool" where
  \<comment> \<open>every timer that is set is one that the manager holds the identifier of\<close>
  "known_timers s =
     (case global s of
        None \<Rightarrow> pollingInterval (manager s) = None \<and> pollingTimeout (manager s) = None
      | Some w \<Rightarrow>
          (\<forall>tm \<in> set (timers w).
              (snd tm = PollTick \<and> pollingInterval (manager s) = Some (fst tm))
              \<or> (snd tm = PollTimeout \<and> pollingTimeout (manager s) = Some (fst tm))))"

definition armed :: "page \<Rightarrow> bool" where
  \<comment> \<open>while the manager holds the timeout's identifier, the timeout is set and nothing is settled\<close>
  "armed s =
     (\<forall>t. pollingTimeout (manager s) = Some t \<longrightarrow>
        (\<exists>w. global s = Some w \<and> map_of (timers w) t = Some PollTimeout)
        \<and> \<not> ready (manager s) \<and> readyPromise (manager s) = Pending)"

definition idle :: "page \<Rightarrow> bool" where
  \<comment> \<open>no timer is set, and the manager holds no timer identifier\<close>
  "idle s = (pollingInterval (manager s) = None \<and> pollingTimeout (manager s) = None
             \<and> (\<forall>w. global s = Some w \<longrightarrow> timers w = []))"

section \<open>Predicates on the fetch module\<close>

text \<open>
  The shape of one cache: its variable, its stored promise, the suspended initializers and
  the number of resolver calls, against the promises of the module.
\<close>

definition cacheInv ::
  "string option \<Rightarrow> nat option \<Rightarrow> nat list \<Rightarrow> nat \<Rightarrow> string promise_state list \<Rightarrow> bool" where
  "cacheInv val pr lookups calls ps =
     (case pr of
        None \<Rightarrow> val = None \<and> lookups = [] \<and> calls = 0
      | Some p \<Rightarrow>
          p < length ps \<and> calls = 1 \<and>
          (case ps ! p of
             Pending \<Rightarrow> val = None \<and> lookups = [p]
           | Fulfilled v \<Rightarrow> val = Some v \<and> lookups = []
           | Rejected e \<Rightarrow> val = None \<and> lookups = []))"

text \<open>
  A call of one of the two \<^verbatim>\<open>ensure\<close> functions against its cache: it awaits the stored
  promise, which is pending, or it has returned and the variable is set. \<open>ensureStarted\<close>
  is the same before the continuations have looked at the promise.
\<close>

definition ensureOk ::
  "string option \<Rightarrow> nat option \<Rightarrow> string promise_state list \<Rightarrow> ensure_state \<Rightarrow> bool" where
  "ensureOk val pr ps e =
     (case e of
        Awaiting p \<Rightarrow> pr = Some p \<and> p < length ps \<and> ps ! p = Pending
      | Completed \<Rightarrow> \<not> unset val
      | Threw err \<Rightarrow> False)"

definition ensureStarted :: "string option \<Rightarrow> nat option \<Rightarrow> ensure_state \<Rightarrow> bool" where
  "ensureStarted val pr e =
     (case e of
        Awaiting p \<Rightarrow> pr = Some p
      | Completed \<Rightarrow> \<not> unset val
      | Threw err \<Rightarrow> False)"

definition sessionHeader :: "request \<Rightarrow> jsval" where
  \<comment> \<open>the value of the header \<^verbatim>\<open>X-Pyloid-Window-Id\<close> in the options of a request\<close>
  "sessionHeader r = getProp (getProp (JObj (requestInit r)) ''headers'') ''X-Pyloid-Window-Id''"

definition fetchInv :: "fetch_module \<Rightarrow> bool" where
  "fetchInv s =
     (cacheInv (serverUrl s) (serverUrlPromise s) (serverUrlLookups s) (getServerUrlCalls s) (promises s)
      \<and> cacheInv (windowId s) (windowIdPromise s) (windowIdLookups s) (getWindowIdCalls s) (promises s)
      \<and> (\<forall>p. serverUrlPromise s = Some p \<longrightarrow> windowIdPromise s \<noteq> Some p)
      \<and> (\<forall>c \<in> set (suspended s).
            ensureOk (serverUrl s) (serverUrlPromise s) (promises s) (serverUrlReady c)
            \<and> ensureOk (windowId s) (windowIdPromise s) (promises s) (windowIdReady c))
      \<and> (\<forall>r \<in> set (requests s).
            \<exists>w. w \<noteq> [] \<and> windowId s = Some w \<and> sessionHeader r = JStr w))"

definition cachesOk :: "fetch_module \<Rightarrow> bool" where
  "cachesOk s =
     (cacheInv (serverUrl s) (serverUrlPromise s) (serverUrlLookups s) (getServerUrlCalls s) (promises s)
      \<and> cacheInv (windowId s) (windowIdPromise s) (windowIdLookups s) (getWindowIdCalls s) (promises s)
      \<and> (\<forall>p. serverUrlPromise s = Some p \<longrightarrow> windowIdPromise s \<noteq> Some p))"

definition callsOk :: "fetch_module \<Rightarrow> bool" where
  "callsOk s =
     ((\<forall>c \<in> set (suspended s).
          ensureOk (serverUrl s) (serverUrlPromise s) (promises s) (serverUrlReady c)
          \<and> ensureOk (windowId s) (windowIdPromise s) (promises s) (windowIdReady c))
      \<and> (\<forall>r \<in> set (requests s).
            \<exists>w. w \<noteq> [] \<and> windowId s = Some w \<and> sessionHeader r = JStr w))"

definition resumable :: "fetch_module \<Rightarrow> fetch_call \<Rightarrow> bool" where
  \<comment> \<open>a call after \<open>advance\<close>: each part has thrown or is in order\<close>
  "resumable s c =
     (((\<exists>e. serverUrlReady c = Threw e)
         \<or> ensureOk (serverUrl s) (serverUrlPromise s) (promises s) (serverUrlReady c))
      \<and> ((\<exists>e. windowIdReady c = Threw e)
         \<or> ensureOk (windowId s) (windowIdPromise s) (promises s) (windowIdReady c)))"

text \<open>The events of \<open>n\<close> calls of \<^verbatim>\<open>fetch\<close> in a row, and the module after them.\<close>

definition fetchCalls :: "(string \<times> (string \<times> jsval) list) list \<Rightarrow> fetch_event list" where
  "fetchCalls cs = map (\<lambda>c. Fetch (fst c) (snd c)) cs"

definition awaitingBoth :: "string \<times> (string \<times> jsval) list \<Rightarrow> fetch_call" where
  "awaitingBoth c =
     \<lparr>input = fst c, options = snd c, serverUrlReady = Awaiting 0, windowIdReady = Awaiting 1\<rparr>"

definition fetchWaiting :: "(string \<times> (string \<times> jsval) list) list \<Rightarrow> fetch_module" where
  "fetchWaiting cs =
     \<lparr>serverUrl = None, serverUrlPromise = Some 0, windowId = None, windowIdPromise = Some 1,
      promises = [Pending, Pending], serverUrlLookups = [0], windowIdLookups = [1],
      getServerUrlCalls = 1, getWindowIdCalls = 1,
      suspended = map awaitingBoth cs, requests = [], failures = []\<rparr>"

text \<open>Every request made so far went to a URL built from the stored server URL.\<close>

definition requestsUseBase :: "fetch_module \<Rightarrow> bool" where
  "requestsUseBase s =
     (\<forall>r \<in> set (requests s). \<exists>b i. serverUrl s = Some b \<and> requestUrl r = buildUrl b i)"

section \<open>Predicates on the RPC client\<close>

text \<open>
  The shape of a client that was constructed without an endpoint: nothing has started, or
  the one call of \<^verbatim>\<open>initializeEndpoint\<close> is at its first or second \<^verbatim>\<open>await\<close>, or it has
  returned or thrown; the suspended calls await its promise, which is pending.
\<close>

definition rpcShape :: "rpc \<Rightarrow> bool" where
  "rpcShape s =
     (case endpointPromise (client s) of
        None \<Rightarrow>
          endpoint (client s) = None \<and> clientWindowId (client s) = None \<and> rpcPromises s = []
          \<and> initializing s = [] \<and> serverUrlCalls s = 0 \<and> windowIdCalls s = 0
      | Some p \<Rightarrow>
          p = 0 \<and> length (rpcPromises s) = 1 \<and> serverUrlCalls s = 1 \<and>
          (case rpcPromises s ! 0 of
             Pending \<Rightarrow>
               clientWindowId (client s) = None
               \<and> (initializing s = [(0, None)] \<and> endpoint (client s) = None \<and> windowIdCalls s = 0
                   \<or> (\<exists>url. initializing s = [(0, Some url)] \<and> endpoint (client s) = Some url
                          \<and> windowIdCalls s = 1))
           | Fulfilled v \<Rightarrow>
               initializing s = [] \<and> endpoint (client s) = Some v \<and> windowIdCalls s = 1
               \<and> clientWindowId (client s) \<noteq> None
           | Rejected e \<Rightarrow>
               initializing s = [] \<and> clientWindowId (client s) = None
               \<and> (endpoint (client s) = None \<and> windowIdCalls s = 0
                   \<or> endpoint (client s) \<noteq> None \<and> windowIdCalls s = 1)))"

definition callingOk :: "rpc \<Rightarrow> bool" where
  "callingOk s =
     (\<forall>c \<in> set (calling s).
        fst c = 0 \<and> endpointPromise (client s) = Some 0 \<and> rpcPromiseState s 0 = Pending)"

definition rpcInv :: "rpc \<Rightarrow> bool" where
  "rpcInv s = (rpcShape s \<and> callingOk s)"

text \<open>
  The shape of a client that was constructed with the endpoint \<open>e\<close>: nothing is ever
  started or suspended, and every request has gone to \<open>e\<close> without an identifier.
\<close>

definition eagerInv :: "string \<Rightarrow> rpc \<Rightarrow> bool" where
  "eagerInv e s =
     (client s = \<lparr>endpoint = Some e, endpointPromise = Some 0, clientWindowId = None\<rparr>
      \<and> rpcPromises s = [Fulfilled e] \<and> initializing s = [] \<and> calling s = []
      \<and> serverUrlCalls s = 0 \<and> windowIdCalls s = 0 \<and> refused s = []
      \<and> (\<forall>r \<in> set (posted s). fst r = e \<and> id' (snd r) = None))"

text \<open>The events of \<open>n\<close> calls of \<^verbatim>\<open>call\<close> in a row, and a fresh client after them.\<close>

definition rpcCalls :: "(string \<times> jsval) list \<Rightarrow> rpc_event list" where
  "rpcCalls cs = map (\<lambda>c. RpcCall (fst c) (snd c)) cs"

definition rpcWaiting :: "(string \<times> jsval) list \<Rightarrow> rpc" where
  "rpcWaiting cs =
     \<lparr>client = \<lparr>endpoint = None, endpointPromise = Some 0, clientWindowId = None\<rparr>,
      rpcPromises = [Pending], initializing = [(0, None)], serverUrlCalls = 1, windowIdCalls = 0,
      calling = map (\<lambda>c. (0, fst c, snd c)) cs, posted = [], refused = []\<rparr>"

text \<open>The calls among a list of events, in order.\<close>

fun callsOf :: "rpc_event list \<Rightarrow> (string \<times> jsval) list" where
  "callsOf [] = []"
| "callsOf (RpcCall m ps # evs) = (m, ps) # callsOf evs"
| "callsOf (ev # evs) = callsOf evs"

text \<open>Every request posted so far went to the stored endpoint.\<close>

definition postedToEndpoint :: "rpc \<Rightarrow> bool" where
  "postedToEndpoint s = (\<forall>r \<in> set (posted s). endpoint (client s) = Some (fst r))"

chapter \<open>Properties\<close>

section \<open>URL building\<close>

lemma startsWith_append [simp]: "startsWith (p @ s) p"
  by (simp add: startsWith_def)

lemma dropTrailingSlash_snoc: "dropTrailingSlash (b @ ''/'') = b"
  by (simp add: dropTrailingSlash_def)

lemma dropTrailingSlash_other:
  "b = [] \<or> last b \<noteq> CHR ''/'' \<Longrightarrow> dropTrailingSlash b = b"
  by (auto simp: dropTrailingSlash_def)

lemma dropLeadingSlash_Cons: "dropLeadingSlash (CHR ''/'' # p) = p"
  by (simp add: dropLeadingSlash_def)

lemma dropLeadingSlash_other:
  "p = [] \<or> hd p \<noteq> CHR ''/'' \<Longrightarrow> dropLeadingSlash p = p"
  by (cases p) (auto simp: dropLeadingSlash_def)

lemma slash_path_not_absolute:
  "\<not> startsWith (CHR ''/'' # p) ''http://'' \<and> \<not> startsWith (CHR ''/'' # p) ''https://''"
  by (simp add: startsWith_def)

text \<open>
  Claim C6. A path that starts with \<^verbatim>\<open>http://\<close> or \<^verbatim>\<open>https://\<close> is returned as it is,
  whatever the base. For any other path, one slash at the end of the base and one slash at
  the start of the path are removed (no more than one: what is left may itself end or start
  with a slash), nothing is removed where there is no such slash, and the two parts are joined
  by one slash. Base \<^verbatim>\<open>http://x/\<close> and path \<^verbatim>\<open>/a/b\<close> give \<^verbatim>\<open>http://x/a/b\<close>.
\<close>

theorem C6_buildUrl:
  "(startsWith path ''http://'' \<or> startsWith path ''https://'' \<longrightarrow> buildUrl base path = path)
   \<and> buildUrl base (''http://'' @ rest) = ''http://'' @ rest
   \<and> buildUrl base (''https://'' @ rest) = ''https://'' @ rest
   \<and> buildUrl (b @ ''/'') (''/'' @ p) = b @ ''/'' @ p
   \<and> (\<not> startsWith p ''http://'' \<and> \<not> startsWith p ''https://'' \<and> (p = [] \<or> hd p \<noteq> CHR ''/'')
        \<longrightarrow> buildUrl (b @ ''/'') p = b @ ''/'' @ p)
   \<and> (b = [] \<or> last b \<noteq> CHR ''/'' \<longrightarrow> buildUrl b (''/'' @ p) = b @ ''/'' @ p)
   \<and> (\<not> startsWith p ''http://'' \<and> \<not> startsWith p ''https://''
        \<and> (b = [] \<or> last b \<noteq> CHR ''/'') \<and> (p = [] \<or> hd p \<noteq> CHR ''/'')
        \<longrightarrow> buildUrl b p = b @ ''/'' @ p)
   \<and> buildUrl ''http://x/'' ''/a/b'' = ''http://x/a/b''
   \<and> buildUrl ''http://x/'' ''https://other/y'' = ''https://other/y''"
proof -
  have abs: "startsWith path ''http://'' \<or> startsWith path ''https://'' \<longrightarrow> buildUrl base path = path"
    by (simp add: buildUrl_def)
  have http: "buildUrl base (''http://'' @ rest) = ''http://'' @ rest"
    by (simp add: buildUrl_def startsWith_def)
  have https: "buildUrl base (''https://'' @ rest) = ''https://'' @ rest"
    by (simp add: buildUrl_def startsWith_def)
  have both: "buildUrl (b @ ''/'') (''/'' @ p) = b @ ''/'' @ p"
    using slash_path_not_absolute [of p] dropTrailingSlash_snoc [of b]
    by (simp add: buildUrl_def dropLeadingSlash_Cons)
  have trailing: "buildUrl (b @ ''/'') p = b @ ''/'' @ p"
    if "\<not> startsWith p ''http://''" "\<not> startsWith p ''https://''" "p = [] \<or> hd p \<noteq> CHR ''/''"
    using that dropTrailingSlash_snoc [of b] by (simp add: buildUrl_def dropLeadingSlash_other)
  have leading: "buildUrl b (''/'' @ p) = b @ ''/'' @ p" if "b = [] \<or> last b \<noteq> CHR ''/''"
    using that slash_path_not_absolute [of p]
    by (simp add: buildUrl_def dropLeadingSlash_Cons dropTrailingSlash_other)
  have neither: "buildUrl b p = b @ ''/'' @ p"
    if "\<not> startsWith p ''http://''" "\<not> startsWith p ''https://''"
      "b = [] \<or> last b \<noteq> CHR ''/''" "p = [] \<or> hd p \<noteq> CHR ''/''"
    using that by (simp add: buildUrl_def dropLeadingSlash_other dropTrailingSlash_other)
  have ex1: "buildUrl ''http://x/'' ''/a/b'' = ''http://x/a/b''"
    by (simp add: buildUrl_def startsWith_def dropTrailingSlash_def dropLeadingSlash_def)
  have ex2: "buildUrl ''http://x/'' ''https://other/y'' = ''https://other/y''"
    by (simp add: buildUrl_def startsWith_def)
  from abs http https both trailing leading neither ex1 ex2 show ?thesis
    by blast
qed

theorem C6_buildUrl_witness:
  "buildUrl ''http://x/'' ''https://other/y'' = ''https://other/y''
   \<and> buildUrl ''http://x//'' ''//a'' = ''http://x///a''
   \<and> buildUrl ''http://x/'' ''a/b'' = ''http://x/a/b''
   \<and> buildUrl ''http://x'' ''/a/b'' = ''http://x/a/b''
   \<and> buildUrl ''http://x'' ''a/b'' = ''http://x/a/b''"
  using C6_buildUrl [where path = "''https://other/y''" and base = "''http://x/''"
      and b = "''http://x/''" and p = "''/a''" and rest = "[]"]
    C6_buildUrl [where path = "[]" and base = "[]" and b = "''http://x''" and p = "''a/b''"
      and rest = "[]"]
  by (simp add: startsWith_def)

section \<open>The readiness gate\<close>

lemma ready_stopPolling [simp]: "ready (manager (stopPolling s)) = ready (manager s)"
  by (simp add: stopPolling_def Let_def split: option.splits)

lemma readyPromise_stopPolling [simp]:
  "readyPromise (manager (stopPolling s)) = readyPromise (manager s)"
  by (simp add: stopPolling_def Let_def split: option.splits)

lemma polling_stopPolling [simp]:
  "pollingInterval (manager (stopPolling s)) = None"
  "pollingTimeout (manager (stopPolling s)) = None"
  by (simp_all add: stopPolling_def Let_def split: option.splits)

lemma rest_stopPolling [simp]:
  "console (stopPolling s) = console s"
  "waiting (stopPolling s) = waiting s"
  "invoked (stopPolling s) = invoked s"
  "rejected (stopPolling s) = rejected s"
  "(global (stopPolling s) = None) = (global s = None)"
  by (simp_all add: stopPolling_def Let_def split: option.splits)

lemma ready_setReady [simp]: "ready (manager (setReady s))"
  by (simp add: setReady_def resolveReadyPromise_def consoleLog_def split: promise_state.splits)

lemma setReady_ready: "ready (manager s) \<Longrightarrow> setReady s = s"
  by (simp add: setReady_def)

lemma setReady_idem: "setReady (setReady s) = setReady s"
  by (rule setReady_ready) simp

lemma setReady_funpow: "(setReady ^^ Suc n) s = setReady s"
  by (induction n) (simp_all add: setReady_idem)

lemma readyPromise_setReady:
  "readyPromise (manager (setReady s)) =
     (if ready (manager s) then readyPromise (manager s)
      else case readyPromise (manager s) of Pending \<Rightarrow> Fulfilled () | p \<Rightarrow> p)"
  by (simp add: setReady_def resolveReadyPromise_def consoleLog_def split: promise_state.splits)

lemma polling_setReady:
  "\<not> ready (manager s) \<Longrightarrow>
     pollingInterval (manager (setReady s)) = None \<and> pollingTimeout (manager (setReady s)) = None"
  by (simp add: setReady_def resolveReadyPromise_def consoleLog_def split: promise_state.splits)

lemma rest_setReady [simp]:
  "waiting (setReady s) = waiting s"
  "invoked (setReady s) = invoked s"
  "rejected (setReady s) = rejected s"
  "(global (setReady s) = None) = (global s = None)"
  by (simp_all add: setReady_def resolveReadyPromise_def consoleLog_def split: promise_state.splits)

lemma runThunk_frame [simp]:
  "manager (runThunk opn s) = manager s"
  "global (runThunk opn s) = global s"
  "waiting (runThunk opn s) = waiting s"
  "console (runThunk opn s) = console s"
  by (simp_all add: runThunk_def split: sum.splits)

lemma fold_runThunk_frame [simp]:
  "manager (fold runThunk ops s) = manager s"
  "global (fold runThunk ops s) = global s"
  "waiting (fold runThunk ops s) = waiting s"
  "console (fold runThunk ops s) = console s"
  by (induction ops arbitrary: s) simp_all

lemma resume_frame [simp]:
  "manager (resume s) = manager s"
  "global (resume s) = global s"
  "console (resume s) = console s"
  by (simp_all add: resume_def split: promise_state.splits)

lemma ensureReady_frame [simp]:
  "manager (ensureReady opn s) = manager s"
  "global (ensureReady opn s) = global s"
  "console (ensureReady opn s) = console s"
  by (simp_all add: ensureReady_def split: promise_state.splits)

lemma resume_idle: "waiting s = [] \<Longrightarrow> resume s = s"
  by (simp add: resume_def whenReady_def split: promise_state.splits)

lemma waiting_resume_settled: "whenReady s \<noteq> Pending \<Longrightarrow> waiting (resume s) = []"
  by (simp add: resume_def split: promise_state.splits)

lemma resume_pending: "whenReady s = Pending \<Longrightarrow> resume s = s"
  by (simp add: resume_def)

lemma whenReady_resume [simp]: "whenReady (resume s) = whenReady s"
  by (simp add: whenReady_def)

lemma resume_idem: "resume (resume s) = resume s"
  by (cases "whenReady s = Pending") (simp_all add: resume_pending resume_idle waiting_resume_settled)

lemma step_CallSetReady_idem: "step CallSetReady (step CallSetReady s) = step CallSetReady s"
proof -
  have "ready (manager (resume (setReady s)))" by simp
  then have "setReady (resume (setReady s)) = resume (setReady s)" by (rule setReady_ready)
  then show ?thesis by (simp add: resume_idem)
qed

lemma timers_setReady:
  "\<not> ready (manager s) \<Longrightarrow> global s = Some w \<Longrightarrow>
   \<exists>w'. global (setReady s) = Some w' \<and>
     timers w' = filter (\<lambda>t. Some (fst t) \<noteq> pollingInterval (manager s)
                          \<and> Some (fst t) \<noteq> pollingTimeout (manager s)) (timers w)"
  by (auto simp: setReady_def resolveReadyPromise_def consoleLog_def stopPolling_def clearTimer_def
      Let_def split: promise_state.splits option.splits intro!: filter_cong)

lemma step_CallSetReady_funpow: "(step CallSetReady ^^ Suc n) s = step CallSetReady s"
  by (induction n) (simp_all only: funpow.simps o_apply id_apply step_CallSetReady_idem)

lemma gate_inv_runThunk: "gate_inv s \<Longrightarrow> ready (manager s) \<Longrightarrow> gate_inv (runThunk opn s)"
  by (auto simp: gate_inv_def runThunk_def isReady_def split: sum.splits)

lemma gate_inv_fold_runThunk:
  "gate_inv s \<Longrightarrow> ready (manager s) \<Longrightarrow> gate_inv (fold runThunk ops s)"
  by (induction ops arbitrary: s) (simp_all add: gate_inv_runThunk)

lemma gate_inv_ensureReady: "gate_inv s \<Longrightarrow> gate_inv (ensureReady opn s)"
proof -
  assume inv: "gate_inv s"
  show ?thesis
  proof (cases "ready (manager s)")
    case True
    with inv show ?thesis
      by (simp add: ensureReady_def isReady_def gate_inv_runThunk) (simp add: gate_inv_def)
  next
    case False
    with inv have "readyPromise (manager s) \<noteq> Fulfilled ()"
      by (auto simp: gate_inv_def)
    with False inv show ?thesis
      by (auto simp: ensureReady_def isReady_def whenReady_def gate_inv_def split: promise_state.splits)
  qed
qed

lemma gate_inv_resume: "gate_inv s \<Longrightarrow> gate_inv (resume s)"
proof -
  assume inv: "gate_inv s"
  show ?thesis
  proof (cases "whenReady s")
    case Pending
    with inv show ?thesis by (simp add: resume_def)
  next
    case (Fulfilled u)
    with inv have r: "ready (manager s)" by (simp add: gate_inv_def whenReady_def)
    from inv have "gate_inv (s\<lparr>waiting := []\<rparr>)" by (simp add: gate_inv_def)
    with r have "gate_inv (fold runThunk (waiting s) (s\<lparr>waiting := []\<rparr>))"
      by (intro gate_inv_fold_runThunk) simp_all
    with Fulfilled show ?thesis by (simp add: resume_def)
  next
    case (Rejected e)
    with inv show ?thesis by (simp add: resume_def gate_inv_def)
  qed
qed

lemma gate_inv_setReady: "gate_inv s \<Longrightarrow> gate_inv (setReady s)"
  by (simp add: gate_inv_def)

lemma gate_inv_stopPolling: "gate_inv s \<Longrightarrow> gate_inv (stopPolling s)"
  by (simp add: gate_inv_def)

lemma gate_inv_consoleLog: "gate_inv s \<Longrightarrow> gate_inv (consoleLog m s)"
  by (simp add: gate_inv_def consoleLog_def)

lemma gate_inv_rejectReadyPromise: "gate_inv s \<Longrightarrow> gate_inv (rejectReadyPromise e s)"
  by (simp add: gate_inv_def rejectReadyPromise_def split: promise_state.splits)

lemma gate_inv_fire: "gate_inv s \<Longrightarrow> gate_inv (fire i s)"
proof -
  assume inv: "gate_inv s"
  have tick: "gate_inv (onPollTick s)"
    using inv
    by (simp add: onPollTick_def gate_inv_setReady gate_inv_stopPolling gate_inv_consoleLog
        split: option.splits)
  have timeout: "gate_inv (onPollTimeout s')" if "gate_inv s'" for s'
    using that
    by (simp add: onPollTimeout_def gate_inv_rejectReadyPromise gate_inv_stopPolling
        gate_inv_consoleLog)
  have "gate_inv (s\<lparr>global := g\<rparr>)" for g
    using inv by (simp add: gate_inv_def)
  with tick timeout inv show ?thesis
    by (simp add: fire_def split: option.splits callback.splits)
qed

lemma gate_inv_step: "gate_inv s \<Longrightarrow> gate_inv (step e s)"
proof (cases e)
  case (Fire i)
  assume "gate_inv s"
  with Fire show ?thesis by (simp add: gate_inv_fire gate_inv_resume)
next
  case (Inject v)
  assume "gate_inv s"
  with Inject show ?thesis by (simp add: gate_inv_def)
next
  case (InjectIpc v)
  assume "gate_inv s"
  with InjectIpc show ?thesis by (simp add: gate_inv_def)
next
  case CallSetReady
  assume "gate_inv s"
  with CallSetReady show ?thesis by (simp add: gate_inv_setReady gate_inv_resume)
next
  case (Call opn)
  assume "gate_inv s"
  with Call show ?thesis by (simp add: gate_inv_ensureReady)
qed

lemma gate_inv_run: "gate_inv s \<Longrightarrow> gate_inv (run evs s)"
  unfolding run_def by (induction evs arbitrary: s) (simp_all add: gate_inv_step)

lemma gate_inv_new: "gate_inv (newPyloidReadyManager g ci td)"
  by (simp add: newPyloidReadyManager_def Let_def gate_inv_setReady gate_inv_consoleLog
      gate_inv_rejectReadyPromise gate_inv_def setTimer_def consoleLog_def rejectReadyPromise_def
      split: option.splits)

lemma ensureReady_not_ready:
  "gate_inv s \<Longrightarrow> \<not> isReady s \<Longrightarrow> invoked (ensureReady opn s) = invoked s"
  by (auto simp: ensureReady_def gate_inv_def whenReady_def isReady_def split: promise_state.splits)

lemma ensureReady_pending:
  "global s \<noteq> None \<Longrightarrow> \<not> isReady s \<Longrightarrow> whenReady s = Pending \<Longrightarrow>
     ensureReady opn s = s\<lparr>waiting := waiting s @ [opn]\<rparr>"
  by (cases "global s") (simp_all add: ensureReady_def)

lemma ensureReady_ready:
  "global s \<noteq> None \<Longrightarrow> isReady s \<Longrightarrow> ensureReady opn s = runThunk opn s"
  by (cases "global s") (simp_all add: ensureReady_def)

lemma invoked_runThunk:
  "thunk opn s = Inr c \<Longrightarrow> invoked (runThunk opn s) = invoked s @ [(isReady s, c)]"
  by (simp add: runThunk_def)

lemma step_CallSetReady_pending:
  "\<not> isReady s \<Longrightarrow> whenReady s = Pending \<Longrightarrow>
     step CallSetReady s = fold runThunk (waiting s) ((setReady s)\<lparr>waiting := []\<rparr>)
     \<and> isReady ((setReady s)\<lparr>waiting := []\<rparr>)"
  by (simp add: resume_def whenReady_def isReady_def readyPromise_setReady)

lemma rejected_never_invoked:
  "whenReady s = Rejected e \<Longrightarrow> invoked (resume s) = invoked s \<and> waiting (resume s) = []
     \<and> rejected (resume s) = rejected s @ map (\<lambda>opn. (opn, e)) (waiting s)"
  by (simp add: resume_def)

lemma idle_known: "idle s \<Longrightarrow> known_timers s \<and> armed s"
  by (auto simp: idle_def known_timers_def armed_def split: option.splits)

lemma global_stopPolling:
  "global (stopPolling s) =
     map_option (\<lambda>w. w\<lparr>timers := filter (\<lambda>t. Some (fst t) \<noteq> pollingInterval (manager s)
                                             \<and> Some (fst t) \<noteq> pollingTimeout (manager s)) (timers w)\<rparr>)
       (global s)"
  by (cases "global s")
    (auto simp: stopPolling_def clearTimer_def Let_def split: option.splits intro!: filter_cong)

lemma idle_stopPolling: "known_timers s \<Longrightarrow> idle (stopPolling s)"
proof -
  assume k: "known_timers s"
  have "timers w' = []" if "global (stopPolling s) = Some w'" for w'
  proof -
    from that obtain w where w: "global s = Some w"
      and w': "timers w' = filter (\<lambda>t. Some (fst t) \<noteq> pollingInterval (manager s)
                                  \<and> Some (fst t) \<noteq> pollingTimeout (manager s)) (timers w)"
      by (auto simp: global_stopPolling)
    from k w have "\<forall>tm \<in> set (timers w). Some (fst tm) = pollingInterval (manager s)
        \<or> Some (fst tm) = pollingTimeout (manager s)"
      by (auto simp: known_timers_def)
    with w' show ?thesis by (auto simp: filter_empty_conv)
  qed
  then show ?thesis by (simp add: idle_def)
qed

lemma known_consoleLog [simp]: "known_timers (consoleLog m s) = known_timers s"
  by (simp add: known_timers_def consoleLog_def split: option.splits)

lemma idle_resolve [simp]: "idle (resolveReadyPromise s) = idle s"
  by (simp add: idle_def resolveReadyPromise_def split: promise_state.splits)

lemma idle_reject [simp]: "idle (rejectReadyPromise e s) = idle s"
  by (simp add: idle_def rejectReadyPromise_def split: promise_state.splits)

lemma idle_consoleLog [simp]: "idle (consoleLog m s) = idle s"
  by (simp add: idle_def consoleLog_def)

lemma known_ready_update [simp]:
  "known_timers (s\<lparr>manager := (manager s)\<lparr>ready := b\<rparr>\<rparr>) = known_timers s"
  by (simp add: known_timers_def split: option.splits)

lemma idle_setReady: "known_timers s \<Longrightarrow> \<not> ready (manager s) \<Longrightarrow> idle (setReady s)"
  by (simp add: setReady_def idle_stopPolling)

lemma idle_onPollTick_found:
  "known_timers s \<Longrightarrow> global s = Some w \<Longrightarrow> truthy (PYLOID w) \<Longrightarrow> idle (onPollTick s)"
proof -
  assume a: "known_timers s" "global s = Some w" "truthy (PYLOID w)"
  let ?s1 = "stopPolling (consoleLog ''PyloidReadyManager: __PYLOID__ found via polling.'' s)"
  from a have i: "idle ?s1" by (simp add: idle_stopPolling)
  have "idle (setReady ?s1)"
  proof (cases "ready (manager ?s1)")
    case True
    with i show ?thesis by (simp add: setReady_ready)
  next
    case False
    with i show ?thesis by (simp add: idle_setReady idle_known)
  qed
  with a show ?thesis by (simp add: onPollTick_def)
qed

lemma idle_onPollTimeout:
  "known_timers s \<Longrightarrow> \<not> ready (manager s) \<Longrightarrow> idle (onPollTimeout s)"
  by (simp add: onPollTimeout_def idle_stopPolling)

lemma known_clearTimer:
  "known_timers s \<Longrightarrow> global s = Some w \<Longrightarrow> known_timers (s\<lparr>global := Some (clearTimer i w)\<rparr>)"
  by (auto simp: known_timers_def clearTimer_def)

lemma inv_setReady: "known_timers s \<Longrightarrow> armed s \<Longrightarrow> known_timers (setReady s) \<and> armed (setReady s)"
  by (cases "ready (manager s)") (simp_all add: setReady_ready idle_setReady idle_known)

lemma inv_fire: "known_timers s \<Longrightarrow> armed s \<Longrightarrow> known_timers (fire i s) \<and> armed (fire i s)"
proof -
  assume k: "known_timers s" and a: "armed s"
  show ?thesis
  proof (cases "global s")
    case None
    with k a show ?thesis by (simp add: fire_def)
  next
    case (Some w)
    show ?thesis
    proof (cases "map_of (timers w) i")
      case None
      with Some k a show ?thesis by (simp add: fire_def)
    next
      case (Some cb)
      note cb = this
      show ?thesis
      proof (cases cb)
        case PollTick
        show ?thesis
        proof (cases "truthy (PYLOID w)")
          case True
          with k \<open>global s = Some w\<close> have "idle (onPollTick s)" by (simp add: idle_onPollTick_found)
          with PollTick cb \<open>global s = Some w\<close> show ?thesis by (simp add: fire_def idle_known)
        next
          case False
          with PollTick cb \<open>global s = Some w\<close> k a show ?thesis by (simp add: fire_def onPollTick_def)
        qed
      next
        case PollTimeout
        let ?s1 = "s\<lparr>global := Some (clearTimer i w)\<rparr>"
        from k \<open>global s = Some w\<close> have k1: "known_timers ?s1" by (rule known_clearTimer)
        show ?thesis
        proof (cases "ready (manager s)")
          case True
          with a have "pollingTimeout (manager s) = None" by (auto simp: armed_def)
          then have "armed ?s1" by (simp add: armed_def)
          with True k1 PollTimeout cb \<open>global s = Some w\<close> show ?thesis
            by (simp add: fire_def onPollTimeout_def)
        next
          case False
          with k1 have "idle (onPollTimeout ?s1)" by (simp add: idle_onPollTimeout)
          with PollTimeout cb \<open>global s = Some w\<close> show ?thesis by (simp add: fire_def idle_known)
        qed
      qed
    qed
  qed
qed

lemma known_frame:
  "manager s' = manager s \<Longrightarrow> map_option timers (global s') = map_option timers (global s) \<Longrightarrow>
     known_timers s' = known_timers s"
  by (cases "global s"; cases "global s'") (auto simp: known_timers_def)

lemma armed_frame:
  "manager s' = manager s \<Longrightarrow> map_option timers (global s') = map_option timers (global s) \<Longrightarrow>
     armed s' = armed s"
  by (cases "global s"; cases "global s'") (auto simp: armed_def)

lemma idle_frame:
  "manager s' = manager s \<Longrightarrow> map_option timers (global s') = map_option timers (global s) \<Longrightarrow>
     idle s' = idle s"
  by (cases "global s"; cases "global s'") (auto simp: idle_def)

lemma inv_step: "known_timers s \<Longrightarrow> armed s \<Longrightarrow> known_timers (step e s) \<and> armed (step e s)"
proof (cases e)
  case (Fire i)
  assume "known_timers s" "armed s"
  then have "known_timers (fire i s) \<and> armed (fire i s)" by (rule inv_fire)
  moreover have "known_timers (resume (fire i s)) = known_timers (fire i s)"
    by (rule known_frame) simp_all
  moreover have "armed (resume (fire i s)) = armed (fire i s)"
    by (rule armed_frame) simp_all
  ultimately show ?thesis using Fire by simp
next
  case (Inject v)
  assume a: "known_timers s" "armed s"
  have "known_timers (step e s) = known_timers s" unfolding Inject
    by (rule known_frame) (simp_all add: option.map_comp comp_def)
  moreover have "armed (step e s) = armed s" unfolding Inject
    by (rule armed_frame) (simp_all add: option.map_comp comp_def)
  ultimately show ?thesis using a by simp
next
  case (InjectIpc v)
  assume a: "known_timers s" "armed s"
  have "known_timers (step e s) = known_timers s" unfolding InjectIpc
    by (rule known_frame) (simp_all add: option.map_comp comp_def)
  moreover have "armed (step e s) = armed s" unfolding InjectIpc
    by (rule armed_frame) (simp_all add: option.map_comp comp_def)
  ultimately show ?thesis using a by simp
next
  case CallSetReady
  assume "known_timers s" "armed s"
  then have "known_timers (setReady s) \<and> armed (setReady s)" by (rule inv_setReady)
  moreover have "known_timers (resume (setReady s)) = known_timers (setReady s)"
    by (rule known_frame) simp_all
  moreover have "armed (resume (setReady s)) = armed (setReady s)"
    by (rule armed_frame) simp_all
  ultimately show ?thesis using CallSetReady by simp
next
  case (Call opn)
  assume a: "known_timers s" "armed s"
  have "known_timers (step e s) = known_timers s" unfolding Call
    by (rule known_frame) simp_all
  moreover have "armed (step e s) = armed s" unfolding Call
    by (rule armed_frame) simp_all
  ultimately show ?thesis using a by simp
qed

lemma inv_run: "known_timers s \<Longrightarrow> armed s \<Longrightarrow> known_timers (run evs s) \<and> armed (run evs s)"
  unfolding run_def by (induction evs arbitrary: s) (simp_all add: inv_step)

lemma inv_new:
  "known_timers (newPyloidReadyManager (map_option (\<lambda>(r, p, i). initialWindow r p i) g) ci td)
   \<and> armed (newPyloidReadyManager (map_option (\<lambda>(r, p, i). initialWindow r p i) g) ci td)"
proof (cases g)
  case None
  then show ?thesis
    by (simp add: newPyloidReadyManager_def Let_def consoleLog_def rejectReadyPromise_def
        known_timers_def armed_def)
next
  case (Some rpi)
  obtain r p i where pi: "rpi = (r, p, i)" by (cases rpi)
  show ?thesis
  proof (cases "truthy p")
    case True
    have "idle (setReady (consoleLog m \<lparr>global = Some (initialWindow r p i),
                manager = \<lparr>ready = False, readyPromise = Pending, pollingInterval = None,
                           pollingTimeout = None, checkInterval = ci, timeoutDuration = td\<rparr>,
                console = [], waiting = [], invoked = [], rejected = []\<rparr>))" for m
      by (rule idle_setReady) (simp_all add: known_timers_def consoleLog_def initialWindow_def)
    with True Some pi show ?thesis
      by (simp add: newPyloidReadyManager_def Let_def idle_known) (simp add: initialWindow_def idle_known)
  next
    case False
    with Some pi show ?thesis
      by (simp add: newPyloidReadyManager_def Let_def consoleLog_def setTimer_def initialWindow_def
          known_timers_def armed_def)
  qed
qed

lemma readyPromise_settled_fire:
  "readyPromise (manager s) \<noteq> Pending \<Longrightarrow> readyPromise (manager (fire i s)) = readyPromise (manager s)"
  by (auto simp: fire_def onPollTick_def onPollTimeout_def readyPromise_setReady
      rejectReadyPromise_def consoleLog_def split: option.splits callback.splits promise_state.splits)

lemma readyPromise_settled_step:
  "readyPromise (manager s) \<noteq> Pending \<Longrightarrow> readyPromise (manager (step ev s)) = readyPromise (manager s)"
  by (cases ev) (auto simp: readyPromise_settled_fire readyPromise_setReady split: promise_state.splits)

lemma readyPromise_settled_run:
  "readyPromise (manager s) \<noteq> Pending \<Longrightarrow> readyPromise (manager (run evs s)) = readyPromise (manager s)"
  unfolding run_def by (induction evs arbitrary: s) (simp_all add: readyPromise_settled_step)

lemma fire_idle: "idle s \<Longrightarrow> fire i s = s"
  by (auto simp: fire_def idle_def split: option.splits)

lemma idle_step:
  "idle s \<Longrightarrow> \<not> ready (manager s) \<Longrightarrow> ev \<noteq> CallSetReady \<Longrightarrow>
     idle (step ev s) \<and> \<not> ready (manager (step ev s))"
proof (cases ev)
  case (Fire i)
  assume a: "idle s" "\<not> ready (manager s)"
  have "idle (resume s) = idle s" by (rule idle_frame) simp_all
  with a Fire show ?thesis by (simp add: fire_idle)
next
  case (Inject v)
  assume a: "idle s" "\<not> ready (manager s)"
  have "idle (step ev s) = idle s" unfolding Inject
    by (rule idle_frame) (simp_all add: option.map_comp comp_def)
  with a Inject show ?thesis by simp
next
  case (InjectIpc v)
  assume a: "idle s" "\<not> ready (manager s)"
  have "idle (step ev s) = idle s" unfolding InjectIpc
    by (rule idle_frame) (simp_all add: option.map_comp comp_def)
  with a InjectIpc show ?thesis by simp
next
  case CallSetReady
  assume "ev \<noteq> CallSetReady"
  with CallSetReady show ?thesis by simp
next
  case (Call opn)
  assume a: "idle s" "\<not> ready (manager s)"
  have "idle (step ev s) = idle s" unfolding Call
    by (rule idle_frame) simp_all
  with a Call show ?thesis by simp
qed

lemma idle_run:
  "idle s \<Longrightarrow> \<not> ready (manager s) \<Longrightarrow> CallSetReady \<notin> set evs \<Longrightarrow>
     idle (run evs s) \<and> \<not> ready (manager (run evs s))"
  unfolding run_def
proof (induction evs arbitrary: s)
  case Nil
  then show ?case by simp
next
  case (Cons ev evs)
  from Cons.prems have "idle (step ev s) \<and> \<not> ready (manager (step ev s))"
    by (intro idle_step) auto
  with Cons.prems Cons.IH [of "step ev s"] show ?case by simp
qed

lemma timeout_fires:
  assumes k: "known_timers s" and a: "armed s" and t: "pollingTimeout (manager s) = Some t"
  shows "readyPromise (manager (step (Fire t) s)) = Rejected (Error ''Pyloid initialization timed out.'')
         \<and> \<not> ready (manager (step (Fire t) s)) \<and> idle (step (Fire t) s)"
proof -
  from a t obtain w where w: "global s = Some w" "map_of (timers w) t = Some PollTimeout"
    and nr: "\<not> ready (manager s)" and p: "readyPromise (manager s) = Pending"
    by (auto simp: armed_def)
  let ?s1 = "s\<lparr>global := Some (clearTimer t w)\<rparr>"
  from k w have k1: "known_timers ?s1" by (simp add: known_clearTimer)
  from w have f: "fire t s = onPollTimeout ?s1" by (simp add: fire_def)
  from k1 nr have "idle (onPollTimeout ?s1)" by (simp add: idle_onPollTimeout)
  moreover from nr p have "readyPromise (manager (onPollTimeout ?s1)) = Rejected (Error ''Pyloid initialization timed out.'')"
    by (simp add: onPollTimeout_def rejectReadyPromise_def consoleLog_def)
  moreover from nr have "\<not> ready (manager (onPollTimeout ?s1))"
    by (simp add: onPollTimeout_def rejectReadyPromise_def consoleLog_def split: promise_state.splits)
  moreover have "idle (resume (fire t s)) = idle (fire t s)" by (rule idle_frame) simp_all
  ultimately show ?thesis using f by simp
qed

lemma pollingPage_eq:
  "pollingPage =
     \<lparr>global = Some \<lparr>PYLOID = JUndefined, ipc = JUndefined,
                     timers = [(1, PollTick), (2, PollTimeout)], nextTimer = 3,
                     inherited = exampleRealm\<rparr>,
      manager = \<lparr>ready = False, readyPromise = Pending, pollingInterval = Some 1,
                 pollingTimeout = Some 2, checkInterval = 20, timeoutDuration = 10000\<rparr>,
      console = [''PyloidReadyManager: __PYLOID__ not found. Starting polling every 20ms.''],
      waiting = [], invoked = [], rejected = []\<rparr>"
  by (simp add: pollingPage_def pyloidReadyManager_def newPyloidReadyManager_def initialWindow_def
      setTimer_def consoleLog_def Let_def showNat.simps)

lemmas gate_eval =
  fire_def onPollTick_def onPollTimeout_def setReady_def stopPolling_def clearTimer_def
  resolveReadyPromise_def rejectReadyPromise_def consoleLog_def resume_def whenReady_def
  isReady_def ensureReady_def runThunk_def thunk_def callMethod_def readProp_def Let_def

lemma splitOn_nonempty [simp]: "splitOn c s \<noteq> []"
  by (induction s) (auto split: list.splits)

lemma navigate_firstNonObject:
  "i \<le> length parts - 1 \<Longrightarrow>
     navigate inh path parts i current =
       (case firstNonObject inh current (drop i (butlast parts)) i of
          Inl j \<Rightarrow> Inl (notAnObject path parts j)
        | Inr v \<Rightarrow> Inr v)"
proof (induction inh path parts i current rule: navigate.induct)
  case (1 inh path parts i current)
  show ?case
  proof (cases "i < length parts - 1")
    case True
    then have d: "drop i (butlast parts) = parts ! i # drop (i + 1) (butlast parts)"
      by (simp add: Cons_nth_drop_Suc [symmetric] nth_butlast)
    show ?thesis
    proof (cases "truthy current \<and> typeof current = ''object''")
      case obj: True
      with True 1 have "navigate inh path parts (i + 1) (readProp inh current (parts ! i)) =
          (case firstNonObject inh (readProp inh current (parts ! i)) (drop (i + 1) (butlast parts)) (i + 1) of
             Inl j \<Rightarrow> Inl (notAnObject path parts j) | Inr v \<Rightarrow> Inr v)"
        by simp
      with True obj d show ?thesis by (simp add: navigate.simps [of inh path parts i])
    next
      case False
      with True d show ?thesis
        by (auto simp: navigate.simps [of inh path parts i] notAnObject_def)
    qed
  next
    case False
    with 1 have "drop i (butlast parts) = []" by simp
    with False show ?thesis by (subst navigate.simps) simp
  qed
qed

lemma typeof_function: "typeof v = ''function'' \<longleftrightarrow> (\<exists>f ps. v = JFun f ps)"
  by (cases v) simp_all

lemma truthy_defined: "truthy v \<Longrightarrow> v \<noteq> JUndefined \<and> v \<noteq> JNull"
  by (cases v) simp_all

lemma callIPC_body_eq:
  "callIPC_body inh rt path args =
     (case firstNonObject inh rt (butlast (splitOn CHR ''.'' path)) 0 of
        Inl j \<Rightarrow> Inl (notAnObject path (splitOn CHR ''.'' path) j)
      | Inr receiver \<Rightarrow>
          (if truthy receiver then
             (case readProp inh receiver (last (splitOn CHR ''.'' path)) of
                JFun f ps \<Rightarrow> Inr (Invocation f args)
              | _ \<Rightarrow> Inl (notAFunction path))
           else Inl (notAFunction path)))"
proof -
  let ?parts = "splitOn CHR ''.'' path"
  have l: "?parts ! (length ?parts - 1) = last ?parts"
    by (simp add: last_conv_nth)
  have n: "navigate inh path ?parts 0 rt =
       (case firstNonObject inh rt (butlast ?parts) 0 of
          Inl j \<Rightarrow> Inl (notAnObject path ?parts j) | Inr v \<Rightarrow> Inr v)"
    using navigate_firstNonObject [of 0 ?parts inh path rt] by simp
  show ?thesis
    unfolding callIPC_body_def Let_def n l
    by (auto simp: notAFunction_def callMethod_def typeof_function dest: truthy_defined
        split: sum.splits jsval.splits)
qed

section \<open>The fetch module\<close>

lemma map_of_setProp_same [simp]: "map_of (setProp k v ps) k = Some v"
  by (induction ps) auto

lemma map_of_setProp_other: "k' \<noteq> k \<Longrightarrow> map_of (setProp k v ps) k' = map_of ps k'"
  by (induction ps) auto

lemma sessionHeader_enhanced:
  "sessionHeader \<lparr>requestUrl = u, requestInit = enhancedOptions opts wid\<rparr> = nullable wid"
  by (simp add: sessionHeader_def enhancedOptions_def getProp_def)

lemma other_header_kept:
  "k \<noteq> ''X-Pyloid-Window-Id'' \<Longrightarrow>
     getProp (getProp (JObj (enhancedOptions opts wid)) ''headers'') k
       = getProp (getProp (JObj opts) ''headers'') k"
  by (simp add: enhancedOptions_def getProp_def map_of_setProp_other)

lemma other_option_kept:
  "k \<noteq> ''headers'' \<Longrightarrow> getProp (JObj (enhancedOptions opts wid)) k = getProp (JObj opts) k"
  by (simp add: enhancedOptions_def getProp_def map_of_setProp_other)

lemma sendRequest_frame [simp]:
  "serverUrl (sendRequest c s) = serverUrl s"
  "serverUrlPromise (sendRequest c s) = serverUrlPromise s"
  "windowId (sendRequest c s) = windowId s"
  "windowIdPromise (sendRequest c s) = windowIdPromise s"
  "promises (sendRequest c s) = promises s"
  "serverUrlLookups (sendRequest c s) = serverUrlLookups s"
  "windowIdLookups (sendRequest c s) = windowIdLookups s"
  "getServerUrlCalls (sendRequest c s) = getServerUrlCalls s"
  "getWindowIdCalls (sendRequest c s) = getWindowIdCalls s"
  "suspended (sendRequest c s) = suspended s"
  by (simp_all add: sendRequest_def split: option.splits)

lemma continue_frame [simp]:
  "serverUrl (continue c s) = serverUrl s"
  "serverUrlPromise (continue c s) = serverUrlPromise s"
  "windowId (continue c s) = windowId s"
  "windowIdPromise (continue c s) = windowIdPromise s"
  "promises (continue c s) = promises s"
  "serverUrlLookups (continue c s) = serverUrlLookups s"
  "windowIdLookups (continue c s) = windowIdLookups s"
  "getServerUrlCalls (continue c s) = getServerUrlCalls s"
  "getWindowIdCalls (continue c s) = getWindowIdCalls s"
  by (simp_all add: continue_def split: ensure_state.splits)

lemma fold_continue_frame [simp]:
  "serverUrl (fold continue cs s) = serverUrl s"
  "serverUrlPromise (fold continue cs s) = serverUrlPromise s"
  "windowId (fold continue cs s) = windowId s"
  "windowIdPromise (fold continue cs s) = windowIdPromise s"
  "promises (fold continue cs s) = promises s"
  "serverUrlLookups (fold continue cs s) = serverUrlLookups s"
  "windowIdLookups (fold continue cs s) = windowIdLookups s"
  "getServerUrlCalls (fold continue cs s) = getServerUrlCalls s"
  "getWindowIdCalls (fold continue cs s) = getWindowIdCalls s"
  by (induction cs arbitrary: s) simp_all

lemma settle_frame [simp]:
  "serverUrl (settle s) = serverUrl s"
  "serverUrlPromise (settle s) = serverUrlPromise s"
  "windowId (settle s) = windowId s"
  "windowIdPromise (settle s) = windowIdPromise s"
  "promises (settle s) = promises s"
  "serverUrlLookups (settle s) = serverUrlLookups s"
  "windowIdLookups (settle s) = windowIdLookups s"
  "getServerUrlCalls (settle s) = getServerUrlCalls s"
  "getWindowIdCalls (settle s) = getWindowIdCalls s"
  by (simp_all add: settle_def)

lemma promiseAll_Completed: "promiseAll a b = Completed \<longleftrightarrow> a = Completed \<and> b = Completed"
  by (auto simp: promiseAll_def split: ensure_state.splits)

lemma promiseAll_Awaiting:
  "promiseAll a b = Awaiting p \<Longrightarrow> (\<forall>e. a \<noteq> Threw e) \<and> (\<forall>e. b \<noteq> Threw e)"
  by (auto simp: promiseAll_def split: ensure_state.splits)

lemma unset_Some: "\<not> unset x \<Longrightarrow> \<exists>w. w \<noteq> [] \<and> x = Some w"
  by (cases x) (auto simp: unset_def)

lemma callsOk_continue: "callsOk s \<Longrightarrow> resumable s c \<Longrightarrow> callsOk (continue c s)"
proof -
  assume ok: "callsOk s" and r: "resumable s c"
  show ?thesis
  proof (cases "promiseAll (serverUrlReady c) (windowIdReady c)")
    case (Awaiting p)
    from promiseAll_Awaiting [OF this] r
    have "ensureOk (serverUrl s) (serverUrlPromise s) (promises s) (serverUrlReady c)
        \<and> ensureOk (windowId s) (windowIdPromise s) (promises s) (windowIdReady c)"
      by (auto simp: resumable_def)
    with ok Awaiting show ?thesis by (auto simp: callsOk_def continue_def)
  next
    case Completed
    then have c: "serverUrlReady c = Completed" "windowIdReady c = Completed"
      by (simp_all add: promiseAll_Completed)
    with r have "\<not> unset (serverUrl s)" "\<not> unset (windowId s)"
      by (auto simp: resumable_def ensureOk_def)
    then obtain b w where "serverUrl s = Some b" "w \<noteq> []" "windowId s = Some w"
      by (auto dest!: unset_Some)
    with ok Completed show ?thesis
      by (auto simp: callsOk_def continue_def sendRequest_def sessionHeader_enhanced nullable_def)
  next
    case (Threw e)
    with ok show ?thesis by (auto simp: callsOk_def continue_def)
  qed
qed

lemma resumable_continue [simp]: "resumable (continue c s) c' = resumable s c'"
  by (simp add: resumable_def)

lemma callsOk_fold_continue:
  "callsOk s \<Longrightarrow> \<forall>c \<in> set cs. resumable s c \<Longrightarrow> callsOk (fold continue cs s)"
  by (induction cs arbitrary: s) (simp_all add: callsOk_continue)

lemma serverUrlAwaited_ok:
  "ensureStarted (serverUrl s) (serverUrlPromise s) e \<Longrightarrow>
   \<forall>p. serverUrlPromise s = Some p \<longrightarrow> p < length (promises s) \<Longrightarrow>
     (\<exists>err. serverUrlAwaited s e = Threw err)
     \<or> ensureOk (serverUrl s) (serverUrlPromise s) (promises s) (serverUrlAwaited s e)"
  by (auto simp: ensureOk_def ensureStarted_def serverUrlAwaited_def promiseState_def
      split: ensure_state.splits promise_state.splits)

lemma windowIdAwaited_ok:
  "ensureStarted (windowId s) (windowIdPromise s) e \<Longrightarrow>
   \<forall>p. windowIdPromise s = Some p \<longrightarrow> p < length (promises s) \<Longrightarrow>
     (\<exists>err. windowIdAwaited s e = Threw err)
     \<or> ensureOk (windowId s) (windowIdPromise s) (promises s) (windowIdAwaited s e)"
  by (auto simp: ensureOk_def ensureStarted_def windowIdAwaited_def promiseState_def
      split: ensure_state.splits promise_state.splits)

lemma cacheInv_bound: "cacheInv val (Some p) lookups calls ps \<Longrightarrow> p < length ps"
  by (simp add: cacheInv_def)

lemma cachesOk_bounds:
  "cachesOk s \<Longrightarrow>
     (\<forall>p. serverUrlPromise s = Some p \<longrightarrow> p < length (promises s))
     \<and> (\<forall>p. windowIdPromise s = Some p \<longrightarrow> p < length (promises s))"
  by (auto simp: cachesOk_def dest: cacheInv_bound)

lemma callsOk_settle:
  assumes caches: "cachesOk s"
    and calls: "\<forall>c \<in> set (suspended s).
            ensureStarted (serverUrl s) (serverUrlPromise s) (serverUrlReady c)
            \<and> ensureStarted (windowId s) (windowIdPromise s) (windowIdReady c)"
    and reqs: "\<forall>r \<in> set (requests s). \<exists>w. w \<noteq> [] \<and> windowId s = Some w \<and> sessionHeader r = JStr w"
  shows "callsOk (settle s)"
proof -
  have 1: "callsOk (s\<lparr>suspended := []\<rparr>)"
    using reqs by (simp add: callsOk_def)
  have 2: "\<forall>c \<in> set (map (advance s) (suspended s)). resumable (s\<lparr>suspended := []\<rparr>) c"
    using calls cachesOk_bounds [OF caches] serverUrlAwaited_ok [of s] windowIdAwaited_ok [of s]
    by (auto simp: resumable_def advance_def)
  from 1 2 show ?thesis unfolding settle_def by (rule callsOk_fold_continue)
qed

lemma ensureOk_started: "ensureOk val pr ps e \<Longrightarrow> ensureStarted val pr e"
  by (cases e) (simp_all add: ensureOk_def ensureStarted_def)

lemma fetchInv_caches: "fetchInv s \<longleftrightarrow> cachesOk s \<and> callsOk s"
  by (auto simp: fetchInv_def cachesOk_def callsOk_def)

lemma cacheInv_append:
  "cacheInv val pr lookups calls ps \<Longrightarrow> cacheInv val pr lookups calls (ps @ [x])"
  by (auto simp: cacheInv_def nth_append split: option.splits)

lemma cacheInv_new:
  "cacheInv val None lookups calls ps \<Longrightarrow>
     cacheInv val (Some (length ps)) (lookups @ [length ps]) (Suc calls) (ps @ [Pending])"
  by (auto simp: cacheInv_def)

lemma cacheInv_other:
  "cacheInv val pr lookups calls ps \<Longrightarrow> pr \<noteq> Some p \<Longrightarrow> cacheInv val pr lookups calls (ps[p := x])"
  by (auto simp: cacheInv_def split: option.splits)

lemma cacheInv_lookup:
  "cacheInv val pr lookups calls ps \<Longrightarrow> p \<in> set lookups \<Longrightarrow>
     pr = Some p \<and> p < length ps \<and> ps ! p = Pending \<and> val = None \<and> lookups = [p] \<and> calls = 1"
  by (auto simp: cacheInv_def split: option.splits promise_state.splits)

lemma cacheInv_fulfil:
  "p < length ps \<Longrightarrow> cacheInv (Some v) (Some p) [] (Suc 0) (ps[p := Fulfilled v])"
  by (simp add: cacheInv_def)

lemma cacheInv_reject:
  "p < length ps \<Longrightarrow> cacheInv None (Some p) [] (Suc 0) (ps[p := Rejected e])"
  by (simp add: cacheInv_def)

lemma ensureServerUrlInitialized_frame [simp]:
  "windowId (snd (ensureServerUrlInitialized s)) = windowId s"
  "windowIdPromise (snd (ensureServerUrlInitialized s)) = windowIdPromise s"
  "windowIdLookups (snd (ensureServerUrlInitialized s)) = windowIdLookups s"
  "getWindowIdCalls (snd (ensureServerUrlInitialized s)) = getWindowIdCalls s"
  "serverUrl (snd (ensureServerUrlInitialized s)) = serverUrl s"
  "suspended (snd (ensureServerUrlInitialized s)) = suspended s"
  "requests (snd (ensureServerUrlInitialized s)) = requests s"
  "failures (snd (ensureServerUrlInitialized s)) = failures s"
  by (simp_all add: ensureServerUrlInitialized_def initializeServerUrl_def Let_def split: option.splits)

lemma ensureWindowIdInitialized_frame [simp]:
  "serverUrl (snd (ensureWindowIdInitialized s)) = serverUrl s"
  "serverUrlPromise (snd (ensureWindowIdInitialized s)) = serverUrlPromise s"
  "serverUrlLookups (snd (ensureWindowIdInitialized s)) = serverUrlLookups s"
  "getServerUrlCalls (snd (ensureWindowIdInitialized s)) = getServerUrlCalls s"
  "windowId (snd (ensureWindowIdInitialized s)) = windowId s"
  "suspended (snd (ensureWindowIdInitialized s)) = suspended s"
  "requests (snd (ensureWindowIdInitialized s)) = requests s"
  "failures (snd (ensureWindowIdInitialized s)) = failures s"
  by (simp_all add: ensureWindowIdInitialized_def initializeWindowId_def Let_def split: option.splits)

lemma cachesOk_ensureServerUrl: "cachesOk s \<Longrightarrow> cachesOk (snd (ensureServerUrlInitialized s))"
  by (auto simp: cachesOk_def ensureServerUrlInitialized_def initializeServerUrl_def Let_def
      cacheInv_append cacheInv_new dest: cacheInv_bound split: option.splits)

lemma cachesOk_ensureWindowId: "cachesOk s \<Longrightarrow> cachesOk (snd (ensureWindowIdInitialized s))"
  by (auto simp: cachesOk_def ensureWindowIdInitialized_def initializeWindowId_def Let_def
      cacheInv_append cacheInv_new dest: cacheInv_bound split: option.splits)

lemma started_ensureServerUrl:
  "ensureStarted (serverUrl s) (serverUrlPromise (snd (ensureServerUrlInitialized s)))
     (fst (ensureServerUrlInitialized s))"
  "ensureStarted (serverUrl s) (serverUrlPromise s) e \<Longrightarrow>
     ensureStarted (serverUrl s) (serverUrlPromise (snd (ensureServerUrlInitialized s))) e"
  by (auto simp: ensureStarted_def ensureServerUrlInitialized_def initializeServerUrl_def Let_def
      split: option.splits ensure_state.splits)

lemma started_ensureWindowId:
  "ensureStarted (windowId s) (windowIdPromise (snd (ensureWindowIdInitialized s)))
     (fst (ensureWindowIdInitialized s))"
  "ensureStarted (windowId s) (windowIdPromise s) e \<Longrightarrow>
     ensureStarted (windowId s) (windowIdPromise (snd (ensureWindowIdInitialized s))) e"
  by (auto simp: ensureStarted_def ensureWindowIdInitialized_def initializeWindowId_def Let_def
      split: option.splits ensure_state.splits)

lemma cachesOk_settle [simp]: "cachesOk (settle s) = cachesOk s"
  by (simp add: cachesOk_def)

lemma cachesOk_suspended [simp]: "cachesOk (s\<lparr>suspended := cs\<rparr>) = cachesOk s"
  by (simp add: cachesOk_def)

lemma fetchInv_Fetch: "fetchInv s \<Longrightarrow> fetchInv (fetchStep (Fetch url opts) s)"
proof -
  assume inv: "fetchInv s"
  let ?s1 = "snd (ensureServerUrlInitialized s)"
  let ?a = "fst (ensureServerUrlInitialized s)"
  let ?s2 = "snd (ensureWindowIdInitialized ?s1)"
  let ?b = "fst (ensureWindowIdInitialized ?s1)"
  let ?c = "\<lparr>input = url, options = opts, serverUrlReady = ?a, windowIdReady = ?b\<rparr>"
  let ?s3 = "?s2\<lparr>suspended := suspended ?s2 @ [?c]\<rparr>"
  have step: "fetchStep (Fetch url opts) s = settle ?s3"
    by (simp add: case_prod_unfold Let_def)
  from inv have "cachesOk ?s2"
    by (simp add: fetchInv_caches cachesOk_ensureServerUrl cachesOk_ensureWindowId)
  then have caches: "cachesOk (settle ?s3)" by simp
  from inv have calls: "\<forall>c \<in> set (suspended s).
            ensureStarted (serverUrl s) (serverUrlPromise s) (serverUrlReady c)
            \<and> ensureStarted (windowId s) (windowIdPromise s) (windowIdReady c)"
    and reqs: "\<forall>r \<in> set (requests s). \<exists>w. w \<noteq> [] \<and> windowId s = Some w \<and> sessionHeader r = JStr w"
    by (auto simp: fetchInv_def dest: ensureOk_started)
  have "callsOk (settle ?s3)"
  proof (rule callsOk_settle)
    show "cachesOk ?s3" using \<open>cachesOk ?s2\<close> by simp
    show "\<forall>c \<in> set (suspended ?s3).
            ensureStarted (serverUrl ?s3) (serverUrlPromise ?s3) (serverUrlReady c)
            \<and> ensureStarted (windowId ?s3) (windowIdPromise ?s3) (windowIdReady c)"
      using calls started_ensureServerUrl [of s] started_ensureWindowId [of ?s1]
      by auto
    show "\<forall>r \<in> set (requests ?s3). \<exists>w. w \<noteq> [] \<and> windowId ?s3 = Some w \<and> sessionHeader r = JStr w"
      using reqs by simp
  qed
  with caches step show ?thesis by (simp add: fetchInv_caches)
qed

lemma ensureOk_None: "ensureOk None pr ps e \<Longrightarrow> ensureStarted v pr e"
  by (cases e) (simp_all add: ensureOk_def ensureStarted_def unset_def)

lemma fetchInv_ServerUrlResult: "fetchInv s \<Longrightarrow> fetchInv (fetchStep (ServerUrlResult p r) s)"
proof (cases "p \<in> set (serverUrlLookups s)")
  case False
  assume "fetchInv s"
  with False show ?thesis by simp
next
  case True
  assume inv: "fetchInv s"
  let ?s1 = "serverUrlArrived p r s"
  from inv have su: "cacheInv (serverUrl s) (serverUrlPromise s) (serverUrlLookups s) (getServerUrlCalls s) (promises s)"
    and wi: "cacheInv (windowId s) (windowIdPromise s) (windowIdLookups s) (getWindowIdCalls s) (promises s)"
    and ne: "\<forall>p. serverUrlPromise s = Some p \<longrightarrow> windowIdPromise s \<noteq> Some p"
    and calls: "\<forall>c \<in> set (suspended s).
            ensureOk (serverUrl s) (serverUrlPromise s) (promises s) (serverUrlReady c)
            \<and> ensureOk (windowId s) (windowIdPromise s) (promises s) (windowIdReady c)"
    and reqs: "\<forall>r \<in> set (requests s). \<exists>w. w \<noteq> [] \<and> windowId s = Some w \<and> sessionHeader r = JStr w"
    by (simp_all add: fetchInv_def)
  from cacheInv_lookup [OF su True]
  have p: "serverUrlPromise s = Some p" "p < length (promises s)" "serverUrl s = None"
    "serverUrlLookups s = [p]" "getServerUrlCalls s = 1"
    by simp_all
  from p ne have q: "windowIdPromise s \<noteq> Some p" by simp
  have frame: "windowId ?s1 = windowId s" "windowIdPromise ?s1 = windowIdPromise s"
    "windowIdLookups ?s1 = windowIdLookups s" "getWindowIdCalls ?s1 = getWindowIdCalls s"
    "serverUrlPromise ?s1 = serverUrlPromise s" "getServerUrlCalls ?s1 = getServerUrlCalls s"
    "suspended ?s1 = suspended s" "requests ?s1 = requests s"
    by (simp_all add: serverUrlArrived_def split: sum.splits)
  have su1: "cacheInv (serverUrl ?s1) (serverUrlPromise ?s1) (serverUrlLookups ?s1) (getServerUrlCalls ?s1) (promises ?s1)"
    using p by (cases r) (simp_all add: serverUrlArrived_def cacheInv_fulfil cacheInv_reject)
  have wi1: "cacheInv (windowId ?s1) (windowIdPromise ?s1) (windowIdLookups ?s1) (getWindowIdCalls ?s1) (promises ?s1)"
    using wi q by (cases r) (simp_all add: serverUrlArrived_def cacheInv_other)
  from su1 wi1 ne have caches: "cachesOk ?s1" by (simp add: cachesOk_def frame)
  have "callsOk (settle ?s1)"
  proof (rule callsOk_settle)
    show "cachesOk ?s1" by (rule caches)
    show "\<forall>c \<in> set (suspended ?s1).
            ensureStarted (serverUrl ?s1) (serverUrlPromise ?s1) (serverUrlReady c)
            \<and> ensureStarted (windowId ?s1) (windowIdPromise ?s1) (windowIdReady c)"
      using calls p ensureOk_None [of "serverUrlPromise s" "promises s" _ "serverUrl ?s1"]
      by (auto simp: frame dest: ensureOk_started)
    show "\<forall>r \<in> set (requests ?s1). \<exists>w. w \<noteq> [] \<and> windowId ?s1 = Some w \<and> sessionHeader r = JStr w"
      using reqs by (simp add: frame)
  qed
  with caches True show ?thesis by (simp add: fetchInv_caches)
qed

lemma fetchInv_WindowIdResult: "fetchInv s \<Longrightarrow> fetchInv (fetchStep (WindowIdResult p r) s)"
proof (cases "p \<in> set (windowIdLookups s)")
  case False
  assume "fetchInv s"
  with False show ?thesis by simp
next
  case True
  assume inv: "fetchInv s"
  let ?s1 = "windowIdArrived p r s"
  from inv have su: "cacheInv (serverUrl s) (serverUrlPromise s) (serverUrlLookups s) (getServerUrlCalls s) (promises s)"
    and wi: "cacheInv (windowId s) (windowIdPromise s) (windowIdLookups s) (getWindowIdCalls s) (promises s)"
    and ne: "\<forall>p. serverUrlPromise s = Some p \<longrightarrow> windowIdPromise s \<noteq> Some p"
    and calls: "\<forall>c \<in> set (suspended s).
            ensureOk (serverUrl s) (serverUrlPromise s) (promises s) (serverUrlReady c)
            \<and> ensureOk (windowId s) (windowIdPromise s) (promises s) (windowIdReady c)"
    and reqs: "\<forall>r \<in> set (requests s). \<exists>w. w \<noteq> [] \<and> windowId s = Some w \<and> sessionHeader r = JStr w"
    by (simp_all add: fetchInv_def)
  from cacheInv_lookup [OF wi True]
  have p: "windowIdPromise s = Some p" "p < length (promises s)" "windowId s = None"
    "windowIdLookups s = [p]" "getWindowIdCalls s = 1"
    by simp_all
  from p ne have q: "serverUrlPromise s \<noteq> Some p" by auto
  from p reqs have noreq: "requests s = []" by (cases "requests s") auto
  have frame: "serverUrl ?s1 = serverUrl s" "serverUrlPromise ?s1 = serverUrlPromise s"
    "serverUrlLookups ?s1 = serverUrlLookups s" "getServerUrlCalls ?s1 = getServerUrlCalls s"
    "windowIdPromise ?s1 = windowIdPromise s" "getWindowIdCalls ?s1 = getWindowIdCalls s"
    "suspended ?s1 = suspended s" "requests ?s1 = requests s"
    by (simp_all add: windowIdArrived_def split: sum.splits)
  have wi1: "cacheInv (windowId ?s1) (windowIdPromise ?s1) (windowIdLookups ?s1) (getWindowIdCalls ?s1) (promises ?s1)"
    using p by (cases r) (simp_all add: windowIdArrived_def cacheInv_fulfil cacheInv_reject)
  have su1: "cacheInv (serverUrl ?s1) (serverUrlPromise ?s1) (serverUrlLookups ?s1) (getServerUrlCalls ?s1) (promises ?s1)"
    using su q by (cases r) (simp_all add: windowIdArrived_def cacheInv_other)
  from su1 wi1 ne have caches: "cachesOk ?s1" by (simp add: cachesOk_def frame)
  have "callsOk (settle ?s1)"
  proof (rule callsOk_settle)
    show "cachesOk ?s1" by (rule caches)
    show "\<forall>c \<in> set (suspended ?s1).
            ensureStarted (serverUrl ?s1) (serverUrlPromise ?s1) (serverUrlReady c)
            \<and> ensureStarted (windowId ?s1) (windowIdPromise ?s1) (windowIdReady c)"
      using calls p ensureOk_None [of "windowIdPromise s" "promises s" _ "windowId ?s1"]
      by (auto simp: frame dest: ensureOk_started)
    show "\<forall>r \<in> set (requests ?s1). \<exists>w. w \<noteq> [] \<and> windowId ?s1 = Some w \<and> sessionHeader r = JStr w"
      using noreq by (simp add: frame)
  qed
  with caches True show ?thesis by (simp add: fetchInv_caches)
qed

lemma fetchInv_step: "fetchInv s \<Longrightarrow> fetchInv (fetchStep ev s)"
  by (cases ev) (simp_all only: fetchInv_Fetch fetchInv_ServerUrlResult fetchInv_WindowIdResult)

lemma fetchInv_run: "fetchInv s \<Longrightarrow> fetchInv (fetchRun evs s)"
  unfolding fetchRun_def by (induction evs arbitrary: s) (simp_all add: fetchInv_step)

lemma fetchInv_fetchModule: "fetchInv fetchModule"
  by (simp add: fetchInv_def fetchModule_def cacheInv_def)

lemma fold_continue_waiting:
  "\<forall>c \<in> set cs. \<exists>p. promiseAll (serverUrlReady c) (windowIdReady c) = Awaiting p \<Longrightarrow>
     fold continue cs s = s\<lparr>suspended := suspended s @ cs\<rparr>"
proof (induction cs arbitrary: s)
  case Nil
  show ?case by simp
next
  case (Cons c cs)
  from Cons.prems obtain p where "promiseAll (serverUrlReady c) (windowIdReady c) = Awaiting p"
    by auto
  then have "continue c s = s\<lparr>suspended := suspended s @ [c]\<rparr>" by (simp add: continue_def)
  with Cons show ?case by simp
qed

lemma fold_continue_completed:
  "\<forall>c \<in> set cs. serverUrlReady c = Completed \<and> windowIdReady c = Completed \<Longrightarrow>
   serverUrl s = Some b \<Longrightarrow>
     fold continue cs s =
       s\<lparr>requests := requests s @
            map (\<lambda>c. \<lparr>requestUrl = buildUrl b (input c),
                       requestInit = enhancedOptions (options c) (windowId s)\<rparr>) cs\<rparr>"
proof (induction cs arbitrary: s)
  case Nil
  show ?case by simp
next
  case (Cons c cs)
  then have "continue c s = s\<lparr>requests := requests s @
      [\<lparr>requestUrl = buildUrl b (input c), requestInit = enhancedOptions (options c) (windowId s)\<rparr>]\<rparr>"
    by (simp add: continue_def sendRequest_def promiseAll_def)
  with Cons show ?case by simp
qed

lemma fold_continue_threw:
  "\<forall>c \<in> set cs. promiseAll (serverUrlReady c) (windowIdReady c) = Threw e \<Longrightarrow>
     fold continue cs s = s\<lparr>failures := failures s @ map (\<lambda>c. (input c, e)) cs\<rparr>"
proof (induction cs arbitrary: s)
  case Nil
  show ?case by simp
next
  case (Cons c cs)
  then have "continue c s = s\<lparr>failures := failures s @ [(input c, e)]\<rparr>"
    by (simp add: continue_def)
  with Cons show ?case by simp
qed

lemma settle_fetchWaiting: "settle (fetchWaiting cs) = fetchWaiting cs"
proof -
  have a: "map (advance (fetchWaiting cs)) (suspended (fetchWaiting cs)) = map awaitingBoth cs"
    by (simp add: fetchWaiting_def advance_def awaitingBoth_def serverUrlAwaited_def
        windowIdAwaited_def promiseState_def)
  have "\<forall>c \<in> set (map awaitingBoth cs). \<exists>p. promiseAll (serverUrlReady c) (windowIdReady c) = Awaiting p"
    by (simp add: awaitingBoth_def promiseAll_def)
  from fold_continue_waiting [OF this] a show ?thesis
    by (simp add: settle_def) (simp add: fetchWaiting_def)
qed

lemma first_fetch: "fetchStep (Fetch u opts) fetchModule = fetchWaiting [(u, opts)]"
proof -
  have "fetchStep (Fetch u opts) fetchModule = settle (fetchWaiting [(u, opts)])"
    by (simp add: fetchModule_def fetchWaiting_def awaitingBoth_def ensureServerUrlInitialized_def
        ensureWindowIdInitialized_def initializeServerUrl_def initializeWindowId_def unset_def Let_def)
  then show ?thesis by (simp add: settle_fetchWaiting)
qed

lemma next_fetch: "fetchStep (Fetch u opts) (fetchWaiting cs) = fetchWaiting (cs @ [(u, opts)])"
proof -
  have "fetchStep (Fetch u opts) (fetchWaiting cs) = settle (fetchWaiting (cs @ [(u, opts)]))"
    by (simp add: fetchWaiting_def awaitingBoth_def ensureServerUrlInitialized_def
        ensureWindowIdInitialized_def unset_def Let_def)
  then show ?thesis by (simp add: settle_fetchWaiting)
qed

lemma fetchRun_append: "fetchRun (evs @ evs') s = fetchRun evs' (fetchRun evs s)"
  by (simp add: fetchRun_def)

lemma more_fetches: "fetchRun (fetchCalls cs') (fetchWaiting cs) = fetchWaiting (cs @ cs')"
proof (induction cs' arbitrary: cs)
  case Nil
  show ?case by (simp add: fetchRun_def fetchCalls_def)
next
  case (Cons c cs')
  have "fetchRun (fetchCalls (c # cs')) (fetchWaiting cs)
      = fetchRun (fetchCalls cs') (fetchStep (Fetch (fst c) (snd c)) (fetchWaiting cs))"
    by (simp add: fetchRun_def fetchCalls_def del: fetchStep.simps)
  with Cons [of "cs @ [c]"] show ?case by (simp add: next_fetch del: fetchStep.simps)
qed

lemma concurrent_fetches: "cs \<noteq> [] \<Longrightarrow> fetchRun (fetchCalls cs) fetchModule = fetchWaiting cs"
proof (cases cs)
  case Nil
  assume "cs \<noteq> []"
  with Nil show ?thesis by simp
next
  case (Cons c cs')
  have "fetchRun (fetchCalls (c # cs')) fetchModule
      = fetchRun (fetchCalls cs') (fetchStep (Fetch (fst c) (snd c)) fetchModule)"
    by (simp add: fetchRun_def fetchCalls_def del: fetchStep.simps)
  with Cons more_fetches [of cs' "[c]"] show ?thesis by (simp add: first_fetch del: fetchStep.simps)
qed

lemma serverUrl_arrives:
  assumes "url \<noteq> []"
  shows "fetchStep (ServerUrlResult 0 (Inr url)) (fetchWaiting cs) =
     (fetchWaiting cs)\<lparr>serverUrl := Some url, promises := [Fulfilled url, Pending],
        serverUrlLookups := [],
        suspended := map (\<lambda>c. (awaitingBoth c)\<lparr>serverUrlReady := Completed\<rparr>) cs\<rparr>"
proof -
  let ?s1 = "serverUrlArrived 0 (Inr url) (fetchWaiting cs)"
  have s1: "?s1 = (fetchWaiting cs)\<lparr>serverUrl := Some url, promises := [Fulfilled url, Pending],
        serverUrlLookups := []\<rparr>"
    by (simp add: serverUrlArrived_def fetchWaiting_def)
  have adv: "map (advance ?s1) (suspended ?s1) = map (\<lambda>c. (awaitingBoth c)\<lparr>serverUrlReady := Completed\<rparr>) cs"
    using assms
    by (simp add: s1) (simp add: fetchWaiting_def advance_def awaitingBoth_def serverUrlAwaited_def
        windowIdAwaited_def promiseState_def unset_def)
  have "\<forall>c \<in> set (map (\<lambda>c. (awaitingBoth c)\<lparr>serverUrlReady := Completed\<rparr>) cs).
      \<exists>p. promiseAll (serverUrlReady c) (windowIdReady c) = Awaiting p"
    by (simp add: awaitingBoth_def promiseAll_def)
  from fold_continue_waiting [OF this, of "?s1\<lparr>suspended := []\<rparr>"]
  have "settle ?s1 = ?s1\<lparr>suspended := map (\<lambda>c. (awaitingBoth c)\<lparr>serverUrlReady := Completed\<rparr>) cs\<rparr>"
    by (simp add: settle_def adv)
  then show ?thesis by (simp add: s1) (simp add: fetchWaiting_def)
qed

lemma windowId_arrives:
  assumes "wid \<noteq> []"
  shows "fetchStep (WindowIdResult 1 (Inr wid))
       ((fetchWaiting cs)\<lparr>serverUrl := Some url, promises := [Fulfilled url, Pending],
          serverUrlLookups := [],
          suspended := map (\<lambda>c. (awaitingBoth c)\<lparr>serverUrlReady := Completed\<rparr>) cs\<rparr>) =
     (fetchWaiting cs)\<lparr>serverUrl := Some url, windowId := Some wid,
        promises := [Fulfilled url, Fulfilled wid],
        serverUrlLookups := [], windowIdLookups := [], suspended := [],
        requests := map (\<lambda>c. \<lparr>requestUrl = buildUrl url (fst c),
                                requestInit = enhancedOptions (snd c) (Some wid)\<rparr>) cs\<rparr>"
proof -
  define s0 where "s0 = (fetchWaiting cs)\<lparr>serverUrl := Some url, promises := [Fulfilled url, Pending],
          serverUrlLookups := [],
          suspended := map (\<lambda>c. (awaitingBoth c)\<lparr>serverUrlReady := Completed\<rparr>) cs\<rparr>"
  define s1 where "s1 = windowIdArrived 1 (Inr wid) s0"
  define finished where "finished = map (\<lambda>c. (awaitingBoth c)\<lparr>serverUrlReady := Completed, windowIdReady := Completed\<rparr>) cs"
  have s1: "s1 = s0\<lparr>windowId := Some wid, promises := [Fulfilled url, Fulfilled wid],
        windowIdLookups := []\<rparr>"
    by (simp add: s1_def s0_def windowIdArrived_def fetchWaiting_def)
  have adv: "map (advance s1) (suspended s1) = finished"
    using assms
    by (simp add: s1 s0_def finished_def fetchWaiting_def advance_def awaitingBoth_def
        serverUrlAwaited_def windowIdAwaited_def promiseState_def unset_def)
  have c: "\<forall>c \<in> set finished. serverUrlReady c = Completed \<and> windowIdReady c = Completed"
    by (simp add: finished_def)
  have u: "serverUrl (s1\<lparr>suspended := []\<rparr>) = Some url"
    by (simp add: s1 s0_def)
  from fold_continue_completed [OF c u]
  have "settle s1 = s1\<lparr>suspended := [],
      requests := requests s1 @
        map (\<lambda>c. \<lparr>requestUrl = buildUrl url (input c),
                   requestInit = enhancedOptions (options c) (windowId s1)\<rparr>) finished\<rparr>"
    by (simp add: settle_def adv)
  then have "settle s1 = (fetchWaiting cs)\<lparr>serverUrl := Some url, windowId := Some wid,
        promises := [Fulfilled url, Fulfilled wid],
        serverUrlLookups := [], windowIdLookups := [], suspended := [],
        requests := map (\<lambda>c. \<lparr>requestUrl = buildUrl url (fst c),
                                requestInit = enhancedOptions (snd c) (Some wid)\<rparr>) cs\<rparr>"
    by (simp add: s1 s0_def finished_def fetchWaiting_def awaitingBoth_def comp_def)
  moreover have "1 \<in> set (windowIdLookups s0)" by (simp add: s0_def fetchWaiting_def)
  ultimately have "fetchStep (WindowIdResult 1 (Inr wid)) s0 = (fetchWaiting cs)\<lparr>serverUrl := Some url, windowId := Some wid,
        promises := [Fulfilled url, Fulfilled wid],
        serverUrlLookups := [], windowIdLookups := [], suspended := [],
        requests := map (\<lambda>c. \<lparr>requestUrl = buildUrl url (fst c),
                                requestInit = enhancedOptions (snd c) (Some wid)\<rparr>) cs\<rparr>"
    by (simp only: fetchStep.simps if_True s1_def)
  then show ?thesis by (simp only: s0_def)
qed

lemma serverUrl_fails:
  "fetchStep (ServerUrlResult 0 (Inl reason)) (fetchWaiting cs) =
     (fetchWaiting cs)\<lparr>promises := [Rejected (Error (''Failed to get server URL: '' @ reason)), Pending],
        serverUrlLookups := [], suspended := [],
        failures := map (\<lambda>c. (fst c, Error (''Failed to get server URL: '' @ reason))) cs\<rparr>"
proof -
  let ?e = "Error (''Failed to get server URL: '' @ reason)"
  let ?s1 = "serverUrlArrived 0 (Inl reason) (fetchWaiting cs)"
  let ?thrown = "map (\<lambda>c. (awaitingBoth c)\<lparr>serverUrlReady := Threw ?e\<rparr>) cs"
  have s1: "?s1 = (fetchWaiting cs)\<lparr>promises := [Rejected ?e, Pending], serverUrlLookups := []\<rparr>"
    by (simp add: serverUrlArrived_def fetchWaiting_def)
  have adv: "map (advance ?s1) (suspended ?s1) = ?thrown"
    by (simp add: s1) (simp add: fetchWaiting_def advance_def awaitingBoth_def serverUrlAwaited_def
        windowIdAwaited_def promiseState_def)
  have c: "\<forall>c \<in> set ?thrown. promiseAll (serverUrlReady c) (windowIdReady c) = Threw ?e"
    by (simp add: promiseAll_def)
  from fold_continue_threw [OF c, of "?s1\<lparr>suspended := []\<rparr>"]
  have "settle ?s1 = ?s1\<lparr>suspended := [], failures := failures ?s1 @ map (\<lambda>c. (input c, ?e)) ?thrown\<rparr>"
    by (simp add: settle_def adv)
  then show ?thesis
    by (simp add: s1) (simp add: fetchWaiting_def awaitingBoth_def comp_def)
qed

section \<open>The RPC client\<close>

lemma postRequest_frame [simp]:
  "client (postRequest m ps s) = client s"
  "rpcPromises (postRequest m ps s) = rpcPromises s"
  "initializing (postRequest m ps s) = initializing s"
  "serverUrlCalls (postRequest m ps s) = serverUrlCalls s"
  "windowIdCalls (postRequest m ps s) = windowIdCalls s"
  "calling (postRequest m ps s) = calling s"
  by (simp_all add: postRequest_def split: option.splits)

lemma resumeCall_frame [simp]:
  "client (resumeCall c s) = client s"
  "rpcPromises (resumeCall c s) = rpcPromises s"
  "initializing (resumeCall c s) = initializing s"
  "serverUrlCalls (resumeCall c s) = serverUrlCalls s"
  "windowIdCalls (resumeCall c s) = windowIdCalls s"
  by (simp_all add: resumeCall_def split: prod.splits promise_state.splits)

lemma fold_resumeCall_frame [simp]:
  "client (fold resumeCall cs s) = client s"
  "rpcPromises (fold resumeCall cs s) = rpcPromises s"
  "initializing (fold resumeCall cs s) = initializing s"
  "serverUrlCalls (fold resumeCall cs s) = serverUrlCalls s"
  "windowIdCalls (fold resumeCall cs s) = windowIdCalls s"
  by (induction cs arbitrary: s) simp_all

lemma rpcSettle_frame [simp]:
  "client (rpcSettle s) = client s"
  "rpcPromises (rpcSettle s) = rpcPromises s"
  "initializing (rpcSettle s) = initializing s"
  "serverUrlCalls (rpcSettle s) = serverUrlCalls s"
  "windowIdCalls (rpcSettle s) = windowIdCalls s"
  by (simp_all add: rpcSettle_def)

lemma fold_resumeCall_pending:
  "\<forall>c \<in> set cs. rpcPromiseState s (fst c) = Pending \<Longrightarrow>
     fold resumeCall cs s = s\<lparr>calling := calling s @ cs\<rparr>"
proof (induction cs arbitrary: s)
  case Nil
  show ?case by simp
next
  case (Cons c cs)
  from Cons.prems have 1: "resumeCall c s = s\<lparr>calling := calling s @ [c]\<rparr>"
    by (cases c) (simp add: resumeCall_def)
  have "rpcPromiseState (s\<lparr>calling := calling s @ [c]\<rparr>) = rpcPromiseState s"
    by (simp add: rpcPromiseState_def fun_eq_iff)
  with Cons 1 show ?case by simp
qed

lemma fold_resumeCall_rejected:
  "\<forall>c \<in> set cs. rpcPromiseState s (fst c) = Rejected e \<Longrightarrow>
     fold resumeCall cs s = s\<lparr>refused := refused s @ map (\<lambda>c. (snd c, e)) cs\<rparr>"
proof (induction cs arbitrary: s)
  case Nil
  show ?case by simp
next
  case (Cons c cs)
  from Cons.prems have 1: "resumeCall c s = s\<lparr>refused := refused s @ [(snd c, e)]\<rparr>"
    by (cases c) (simp add: resumeCall_def)
  have "rpcPromiseState (s\<lparr>refused := refused s @ [(snd c, e)]\<rparr>) = rpcPromiseState s"
    by (simp add: rpcPromiseState_def fun_eq_iff)
  with Cons 1 show ?case by simp
qed

lemma fold_resumeCall_fulfilled:
  "\<forall>c \<in> set cs. \<exists>v. rpcPromiseState s (fst c) = Fulfilled v \<Longrightarrow>
   endpoint (client s) = Some url \<Longrightarrow> url \<noteq> [] \<Longrightarrow>
     fold resumeCall cs s =
       s\<lparr>posted := posted s @ map (\<lambda>c. (url, buildRequest (client s) (fst (snd c)) (snd (snd c)))) cs\<rparr>"
proof (induction cs arbitrary: s)
  case Nil
  show ?case by simp
next
  case (Cons c cs)
  from Cons.prems have 1: "resumeCall c s
      = s\<lparr>posted := posted s @ [(url, buildRequest (client s) (fst (snd c)) (snd (snd c)))]\<rparr>"
    by (cases c) (auto simp: resumeCall_def postRequest_def)
  have "rpcPromiseState (s\<lparr>posted := posted s @ [(url, buildRequest (client s) (fst (snd c)) (snd (snd c)))]\<rparr>)
      = rpcPromiseState s"
    by (simp add: rpcPromiseState_def fun_eq_iff)
  with Cons 1 show ?case by simp
qed

lemma rpcSettle_pending:
  "\<forall>c \<in> set (calling s). rpcPromiseState s (fst c) = Pending \<Longrightarrow> rpcSettle s = s"
proof -
  assume a: "\<forall>c \<in> set (calling s). rpcPromiseState s (fst c) = Pending"
  have "rpcPromiseState (s\<lparr>calling := []\<rparr>) = rpcPromiseState s"
    by (simp add: rpcPromiseState_def fun_eq_iff)
  with a fold_resumeCall_pending [of "calling s" "s\<lparr>calling := []\<rparr>"]
  show ?thesis by (simp add: rpcSettle_def)
qed

lemma rpcSettle_idle: "calling s = [] \<Longrightarrow> rpcSettle s = s"
  by (simp add: rpcSettle_def)

lemma eager_step:
  assumes inv: "eagerInv e s" and ne: "e \<noteq> []"
  shows "rpcStep ev s =
     (case ev of
        RpcCall m ps \<Rightarrow>
          s\<lparr>posted := posted s @
               [(e, \<lparr>jsonrpc = ''2.0'', id' = None, method = m,
                     params = (if ps = JUndefined then JObj [] else ps)\<rparr>)]\<rparr>
      | _ \<Rightarrow> s)"
proof (cases ev)
  case (RpcCall m ps)
  from inv ne have "ensureEndpointInitialized s = (None, s)"
    by (simp add: ensureEndpointInitialized_def eagerInv_def unset_def)
  with inv ne RpcCall show ?thesis
    by (simp add: postRequest_def eagerInv_def buildRequest_def)
next
  case (RpcServerUrlResult p r)
  with inv show ?thesis by (simp add: eagerInv_def)
next
  case (RpcWindowIdResult p r)
  with inv show ?thesis by (simp add: eagerInv_def)
qed

lemma eagerInv_step: "eagerInv e s \<Longrightarrow> e \<noteq> [] \<Longrightarrow> eagerInv e (rpcStep ev s)"
  using eager_step [of e s ev]
  by (cases ev) (auto simp del: rpcStep.simps simp add: eagerInv_def)

lemma eagerInv_new: "e \<noteq> [] \<Longrightarrow> eagerInv e (newRpcClient (Some e))"
  by (simp add: eagerInv_def newRpcClient_def lazyClient_def)

lemma eager_run:
  "eagerInv e s \<Longrightarrow> e \<noteq> [] \<Longrightarrow>
     eagerInv e (rpcRun evs s)
     \<and> posted (rpcRun evs s) = posted s @
          map (\<lambda>c. (e, \<lparr>jsonrpc = ''2.0'', id' = None, method = fst c,
                         params = (if snd c = JUndefined then JObj [] else snd c)\<rparr>)) (callsOf evs)"
  unfolding rpcRun_def
proof (induction evs arbitrary: s)
  case Nil
  then show ?case by simp
next
  case (Cons ev evs)
  from Cons.prems have i: "eagerInv e (rpcStep ev s)" by (rule eagerInv_step)
  from Cons.prems have p: "posted (rpcStep ev s) = posted s @
      map (\<lambda>c. (e, \<lparr>jsonrpc = ''2.0'', id' = None, method = fst c,
                     params = (if snd c = JUndefined then JObj [] else snd c)\<rparr>)) (callsOf [ev])"
    using eager_step [of e s ev] by (cases ev) (simp_all del: rpcStep.simps)
  from Cons.IH [OF i Cons.prems(2)] p show ?case
    by (cases ev) (simp_all del: rpcStep.simps)
qed

lemma rpcPromiseState_frame:
  "rpcPromises s' = rpcPromises s \<Longrightarrow> rpcPromiseState s' = rpcPromiseState s"
  by (simp add: rpcPromiseState_def fun_eq_iff)

lemma rpcShape_frame:
  "client s' = client s \<Longrightarrow> rpcPromises s' = rpcPromises s \<Longrightarrow> initializing s' = initializing s \<Longrightarrow>
   serverUrlCalls s' = serverUrlCalls s \<Longrightarrow> windowIdCalls s' = windowIdCalls s \<Longrightarrow>
     rpcShape s' = rpcShape s"
  by (simp add: rpcShape_def cong: option.case_cong promise_state.case_cong)

lemma rpcShape_rpcSettle [simp]: "rpcShape (rpcSettle s) = rpcShape s"
  by (rule rpcShape_frame) simp_all

lemma rpcShape_postRequest [simp]: "rpcShape (postRequest m ps s) = rpcShape s"
  by (rule rpcShape_frame) simp_all

lemma rpcShape_calling [simp]: "rpcShape (s\<lparr>calling := cs\<rparr>) = rpcShape s"
  by (rule rpcShape_frame) simp_all

lemma rpcPromiseState_postRequest [simp]: "rpcPromiseState (postRequest m ps s) = rpcPromiseState s"
  by (rule rpcPromiseState_frame) simp

lemma callingOk_postRequest [simp]: "callingOk (postRequest m ps s) = callingOk s"
  by (simp add: callingOk_def)

lemma calling_resumeCall:
  "set (calling (resumeCall c s)) \<subseteq> set (calling s) \<union> (if rpcPromiseState s (fst c) = Pending then {c} else {})"
  by (cases c) (auto simp: resumeCall_def split: promise_state.splits)

lemma rpcPromiseState_resumeCall [simp]: "rpcPromiseState (resumeCall c s) = rpcPromiseState s"
  by (rule rpcPromiseState_frame) simp

lemma calling_fold_resumeCall:
  "set (calling (fold resumeCall cs s))
     \<subseteq> set (calling s) \<union> {c \<in> set cs. rpcPromiseState s (fst c) = Pending}"
proof (induction cs arbitrary: s)
  case Nil
  show ?case by simp
next
  case (Cons c cs)
  from Cons [of "resumeCall c s"] calling_resumeCall [of c s] show ?case
    by (auto split: if_splits)
qed

lemma callingOk_rpcSettle:
  "\<forall>c \<in> set (calling s). fst c = 0 \<and> endpointPromise (client s) = Some 0 \<Longrightarrow> callingOk (rpcSettle s)"
proof -
  assume a: "\<forall>c \<in> set (calling s). fst c = 0 \<and> endpointPromise (client s) = Some 0"
  have "rpcPromiseState (s\<lparr>calling := []\<rparr>) = rpcPromiseState s"
    by (rule rpcPromiseState_frame) simp
  with calling_fold_resumeCall [of "calling s" "s\<lparr>calling := []\<rparr>"]
  have "set (calling (rpcSettle s)) \<subseteq> {c \<in> set (calling s). rpcPromiseState s (fst c) = Pending}"
    by (simp add: rpcSettle_def)
  moreover have "rpcPromiseState (rpcSettle s) = rpcPromiseState s"
    by (rule rpcPromiseState_frame) simp
  ultimately show ?thesis using a by (fastforce simp: callingOk_def)
qed

lemma callingOk_fst: "callingOk s \<Longrightarrow> \<forall>c \<in> set (calling s). fst c = 0 \<and> endpointPromise (client s) = Some 0"
  by (simp add: callingOk_def)

lemma rpcInv_RpcCall: "rpcInv s \<Longrightarrow> rpcInv (rpcStep (RpcCall m ps) s)"
proof -
  assume inv: "rpcInv s"
  then have sh: "rpcShape s" and co: "callingOk s" by (simp_all add: rpcInv_def)
  show ?thesis
  proof (cases "unset (endpoint (client s))")
    case False
    then have "ensureEndpointInitialized s = (None, s)"
      by (simp add: ensureEndpointInitialized_def)
    with inv show ?thesis by (simp add: rpcInv_def)
  next
    case True
    show ?thesis
    proof (cases "endpointPromise (client s)")
      case (Some p)
      with sh have p: "p = 0" by (simp add: rpcShape_def)
      from True Some p have e: "ensureEndpointInitialized s = (Some 0, s)"
        by (simp add: ensureEndpointInitialized_def)
      have "callingOk (rpcSettle (s\<lparr>calling := calling s @ [(0, m, ps)]\<rparr>))"
        using callingOk_fst [OF co] Some p by (intro callingOk_rpcSettle) auto
      with sh e show ?thesis by (simp add: rpcInv_def)
    next
      case None
      let ?s1 = "s\<lparr>rpcPromises := rpcPromises s @ [Pending],
                    initializing := initializing s @ [(length (rpcPromises s), None)],
                    serverUrlCalls := serverUrlCalls s + 1,
                    client := (client s)\<lparr>endpointPromise := Some (length (rpcPromises s))\<rparr>\<rparr>"
      from None sh have l: "rpcPromises s = []" by (simp add: rpcShape_def)
      from True None have e: "ensureEndpointInitialized s = (Some 0, ?s1)"
        by (simp add: ensureEndpointInitialized_def initializeEndpoint_def Let_def l)
      from None sh have sh1: "rpcShape ?s1" by (simp add: rpcShape_def)
      from None co have "calling s = []" by (cases "calling s") (auto simp: callingOk_def)
      then have "callingOk (rpcSettle (?s1\<lparr>calling := calling ?s1 @ [(0, m, ps)]\<rparr>))"
        using l by (intro callingOk_rpcSettle) auto
      with sh1 e show ?thesis by (simp add: rpcInv_def)
    qed
  qed
qed

lemma nth_singleton: "length xs = 1 \<Longrightarrow> xs ! 0 = x \<Longrightarrow> xs = [x]"
  by (cases xs) auto

lemma rpcShape_stage1:
  "rpcShape s \<Longrightarrow> (p, None) \<in> set (initializing s) \<Longrightarrow>
     p = 0 \<and> client s = \<lparr>endpoint = None, endpointPromise = Some 0, clientWindowId = None\<rparr>
     \<and> rpcPromises s = [Pending] \<and> initializing s = [(0, None)]
     \<and> serverUrlCalls s = 1 \<and> windowIdCalls s = 0"
  by (auto simp: rpcShape_def nth_singleton split: option.splits promise_state.splits)

lemma rpcShape_stage2:
  "rpcShape s \<Longrightarrow> map_of (initializing s) p = Some (Some url) \<Longrightarrow>
     p = 0 \<and> client s = \<lparr>endpoint = Some url, endpointPromise = Some 0, clientWindowId = None\<rparr>
     \<and> rpcPromises s = [Pending] \<and> initializing s = [(0, Some url)]
     \<and> serverUrlCalls s = 1 \<and> windowIdCalls s = 1"
  by (auto simp: rpcShape_def nth_singleton split: option.splits promise_state.splits if_splits)

lemma rpcInv_RpcServerUrlResult: "rpcInv s \<Longrightarrow> rpcInv (rpcStep (RpcServerUrlResult p r) s)"
proof (cases "(p, None) \<in> set (initializing s)")
  case False
  assume "rpcInv s"
  with False show ?thesis by simp
next
  case True
  assume inv: "rpcInv s"
  then have sh: "rpcShape s" and co: "callingOk s" by (simp_all add: rpcInv_def)
  note st = rpcShape_stage1 [OF sh True]
  have sh1: "rpcShape (endpointArrived p r s)"
    using st by (cases r) (simp_all add: endpointArrived_def rpcShape_def)
  have "callingOk (rpcSettle (endpointArrived p r s))"
  proof (rule callingOk_rpcSettle)
    have "calling (endpointArrived p r s) = calling s"
      "endpointPromise (client (endpointArrived p r s)) = Some 0"
      using st by (simp_all add: endpointArrived_def split: sum.splits)
    with callingOk_fst [OF co]
    show "\<forall>c \<in> set (calling (endpointArrived p r s)).
        fst c = 0 \<and> endpointPromise (client (endpointArrived p r s)) = Some 0"
      by simp
  qed
  with sh1 True show ?thesis by (simp add: rpcInv_def)
qed

lemma rpcInv_RpcWindowIdResult: "rpcInv s \<Longrightarrow> rpcInv (rpcStep (RpcWindowIdResult p r) s)"
proof (cases "\<exists>url. map_of (initializing s) p = Some (Some url)")
  case False
  assume "rpcInv s"
  with False show ?thesis by (auto split: option.splits)
next
  case True
  then obtain url where u: "map_of (initializing s) p = Some (Some url)" by blast
  assume inv: "rpcInv s"
  then have sh: "rpcShape s" and co: "callingOk s" by (simp_all add: rpcInv_def)
  note st = rpcShape_stage2 [OF sh u]
  have sh1: "rpcShape (sessionArrived p url r s)"
    using st by (cases r) (simp_all add: sessionArrived_def rpcShape_def)
  have "callingOk (rpcSettle (sessionArrived p url r s))"
  proof (rule callingOk_rpcSettle)
    have "calling (sessionArrived p url r s) = calling s"
      "endpointPromise (client (sessionArrived p url r s)) = Some 0"
      using st by (simp_all add: sessionArrived_def split: sum.splits)
    with callingOk_fst [OF co]
    show "\<forall>c \<in> set (calling (sessionArrived p url r s)).
        fst c = 0 \<and> endpointPromise (client (sessionArrived p url r s)) = Some 0"
      by simp
  qed
  with sh1 u show ?thesis by (simp add: rpcInv_def)
qed

lemma rpcInv_step: "rpcInv s \<Longrightarrow> rpcInv (rpcStep ev s)"
  by (cases ev) (simp_all only: rpcInv_RpcCall rpcInv_RpcServerUrlResult rpcInv_RpcWindowIdResult)

lemma rpcInv_run: "rpcInv s \<Longrightarrow> rpcInv (rpcRun evs s)"
  unfolding rpcRun_def by (induction evs arbitrary: s) (simp_all add: rpcInv_step)

lemma rpcInv_lazyClient: "rpcInv lazyClient"
  by (simp add: rpcInv_def rpcShape_def callingOk_def lazyClient_def)

lemma rpcShape_calls: "rpcShape s \<Longrightarrow> serverUrlCalls s \<le> 1 \<and> windowIdCalls s \<le> 1"
  by (auto simp: rpcShape_def split: option.splits promise_state.splits)

lemma rpcSettle_rpcWaiting: "rpcSettle (rpcWaiting cs) = rpcWaiting cs"
  by (rule rpcSettle_pending) (simp add: rpcWaiting_def rpcPromiseState_def)

lemma first_call: "rpcStep (RpcCall m ps) lazyClient = rpcWaiting [(m, ps)]"
proof -
  have "rpcStep (RpcCall m ps) lazyClient = rpcSettle (rpcWaiting [(m, ps)])"
    by (simp add: lazyClient_def rpcWaiting_def ensureEndpointInitialized_def initializeEndpoint_def
        unset_def Let_def)
  then show ?thesis by (simp add: rpcSettle_rpcWaiting)
qed

lemma next_call: "rpcStep (RpcCall m ps) (rpcWaiting cs) = rpcWaiting (cs @ [(m, ps)])"
proof -
  have "rpcStep (RpcCall m ps) (rpcWaiting cs) = rpcSettle (rpcWaiting (cs @ [(m, ps)]))"
    by (simp add: rpcWaiting_def ensureEndpointInitialized_def unset_def)
  then show ?thesis by (simp add: rpcSettle_rpcWaiting)
qed

lemma more_calls: "rpcRun (rpcCalls cs') (rpcWaiting cs) = rpcWaiting (cs @ cs')"
proof (induction cs' arbitrary: cs)
  case Nil
  show ?case by (simp add: rpcRun_def rpcCalls_def)
next
  case (Cons c cs')
  have "rpcRun (rpcCalls (c # cs')) (rpcWaiting cs)
      = rpcRun (rpcCalls cs') (rpcStep (RpcCall (fst c) (snd c)) (rpcWaiting cs))"
    by (simp add: rpcRun_def rpcCalls_def del: rpcStep.simps)
  with Cons [of "cs @ [c]"] show ?case by (simp add: next_call del: rpcStep.simps)
qed

lemma concurrent_calls: "cs \<noteq> [] \<Longrightarrow> rpcRun (rpcCalls cs) lazyClient = rpcWaiting cs"
proof (cases cs)
  case Nil
  assume "cs \<noteq> []"
  with Nil show ?thesis by simp
next
  case (Cons c cs')
  have "rpcRun (rpcCalls (c # cs')) lazyClient
      = rpcRun (rpcCalls cs') (rpcStep (RpcCall (fst c) (snd c)) lazyClient)"
    by (simp add: rpcRun_def rpcCalls_def del: rpcStep.simps)
  with Cons more_calls [of cs' "[c]"] show ?thesis by (simp add: first_call del: rpcStep.simps)
qed

lemma endpoint_arrives:
  "rpcStep (RpcServerUrlResult 0 (Inr url)) (rpcWaiting cs) =
     (rpcWaiting cs)\<lparr>client := \<lparr>endpoint = Some url, endpointPromise = Some 0, clientWindowId = None\<rparr>,
        initializing := [(0, Some url)], windowIdCalls := 1\<rparr>"
proof -
  define s1 where "s1 = endpointArrived 0 (Inr url) (rpcWaiting cs)"
  have s1: "s1 = (rpcWaiting cs)\<lparr>client := \<lparr>endpoint = Some url, endpointPromise = Some 0, clientWindowId = None\<rparr>,
        initializing := [(0, Some url)], windowIdCalls := 1\<rparr>"
    by (simp add: s1_def endpointArrived_def rpcWaiting_def)
  have "rpcSettle s1 = s1"
    by (rule rpcSettle_pending) (simp add: s1 rpcWaiting_def rpcPromiseState_def)
  moreover have "(0, None) \<in> set (initializing (rpcWaiting cs))" by (simp add: rpcWaiting_def)
  ultimately have "rpcStep (RpcServerUrlResult 0 (Inr url)) (rpcWaiting cs) = s1"
    by (simp only: rpcStep.simps if_True s1_def)
  then show ?thesis by (simp only: s1)
qed

lemma session_arrives:
  assumes "url \<noteq> []"
  shows "rpcStep (RpcWindowIdResult 0 (Inr wid))
       ((rpcWaiting cs)\<lparr>client := \<lparr>endpoint = Some url, endpointPromise = Some 0, clientWindowId = None\<rparr>,
          initializing := [(0, Some url)], windowIdCalls := 1\<rparr>) =
     (rpcWaiting cs)\<lparr>client := \<lparr>endpoint = Some url, endpointPromise = Some 0, clientWindowId = Some wid\<rparr>,
        rpcPromises := [Fulfilled url], initializing := [], windowIdCalls := 1, calling := [],
        posted := map (\<lambda>c. (url, \<lparr>jsonrpc = ''2.0'', id' = Some wid, method = fst c,
                                    params = (if snd c = JUndefined then JObj [] else snd c)\<rparr>)) cs\<rparr>"
proof -
  define s0 where "s0 = (rpcWaiting cs)\<lparr>client := \<lparr>endpoint = Some url, endpointPromise = Some 0, clientWindowId = None\<rparr>,
          initializing := [(0, Some url)], windowIdCalls := 1\<rparr>"
  define s1 where "s1 = sessionArrived 0 url (Inr wid) s0"
  have s1: "s1 = s0\<lparr>client := \<lparr>endpoint = Some url, endpointPromise = Some 0, clientWindowId = Some wid\<rparr>,
        rpcPromises := [Fulfilled url], initializing := []\<rparr>"
    by (simp add: s1_def s0_def sessionArrived_def rpcWaiting_def)
  have c: "\<forall>c \<in> set (calling s1). \<exists>v. rpcPromiseState (s1\<lparr>calling := []\<rparr>) (fst c) = Fulfilled v"
    by (simp add: s1 s0_def rpcWaiting_def rpcPromiseState_def)
  have e: "endpoint (client (s1\<lparr>calling := []\<rparr>)) = Some url"
    by (simp add: s1)
  from fold_resumeCall_fulfilled [OF c e assms]
  have "rpcSettle s1 = (rpcWaiting cs)\<lparr>client := \<lparr>endpoint = Some url, endpointPromise = Some 0, clientWindowId = Some wid\<rparr>,
        rpcPromises := [Fulfilled url], initializing := [], windowIdCalls := 1, calling := [],
        posted := map (\<lambda>c. (url, \<lparr>jsonrpc = ''2.0'', id' = Some wid, method = fst c,
                                    params = (if snd c = JUndefined then JObj [] else snd c)\<rparr>)) cs\<rparr>"
    by (simp add: rpcSettle_def) (simp add: s1 s0_def rpcWaiting_def buildRequest_def comp_def)
  moreover have "map_of (initializing s0) 0 = Some (Some url)" by (simp add: s0_def)
  ultimately have "rpcStep (RpcWindowIdResult 0 (Inr wid)) s0 = (rpcWaiting cs)\<lparr>client := \<lparr>endpoint = Some url, endpointPromise = Some 0, clientWindowId = Some wid\<rparr>,
        rpcPromises := [Fulfilled url], initializing := [], windowIdCalls := 1, calling := [],
        posted := map (\<lambda>c. (url, \<lparr>jsonrpc = ''2.0'', id' = Some wid, method = fst c,
                                    params = (if snd c = JUndefined then JObj [] else snd c)\<rparr>)) cs\<rparr>"
    by (simp add: s1_def)
  then show ?thesis by (simp only: s0_def)
qed

lemma endpoint_fails:
  "rpcStep (RpcServerUrlResult 0 (Inl reason)) (rpcWaiting cs) =
     (rpcWaiting cs)\<lparr>rpcPromises := [Rejected (Error (''Failed to get RPC endpoint: '' @ reason))],
        initializing := [], calling := [],
        refused := map (\<lambda>c. (c, Error (''Failed to get RPC endpoint: '' @ reason))) cs\<rparr>"
proof -
  define s1 where "s1 = endpointArrived 0 (Inl reason) (rpcWaiting cs)"
  have s1: "s1 = (rpcWaiting cs)\<lparr>rpcPromises := [Rejected (Error (''Failed to get RPC endpoint: '' @ reason))],
        initializing := []\<rparr>"
    by (simp add: s1_def endpointArrived_def rpcWaiting_def)
  have c: "\<forall>c \<in> set (calling s1). rpcPromiseState (s1\<lparr>calling := []\<rparr>) (fst c)
      = Rejected (Error (''Failed to get RPC endpoint: '' @ reason))"
    by (simp add: s1 rpcWaiting_def rpcPromiseState_def)
  from fold_resumeCall_rejected [OF c]
  have "rpcSettle s1 = (rpcWaiting cs)\<lparr>rpcPromises := [Rejected (Error (''Failed to get RPC endpoint: '' @ reason))],
        initializing := [], calling := [],
        refused := map (\<lambda>c. (c, Error (''Failed to get RPC endpoint: '' @ reason))) cs\<rparr>"
    by (simp add: rpcSettle_def) (simp add: s1 rpcWaiting_def comp_def)
  moreover have "(0, None) \<in> set (initializing (rpcWaiting cs))" by (simp add: rpcWaiting_def)
  ultimately show ?thesis by (simp only: rpcStep.simps if_True s1_def)
qed

lemma endpoint_failed_shape:
  assumes inv: "rpcInv s" and p: "endpointPromise (client s) = Some p"
    and r: "rpcPromiseState s p = Rejected e" and n: "endpoint (client s) = None"
  shows "p = 0 \<and> client s = \<lparr>endpoint = None, endpointPromise = Some 0, clientWindowId = None\<rparr>
     \<and> rpcPromises s = [Rejected e] \<and> initializing s = [] \<and> calling s = []
     \<and> serverUrlCalls s = 1 \<and> windowIdCalls s = 0"
proof -
  from inv have sh: "rpcShape s" and co: "callingOk s" by (simp_all add: rpcInv_def)
  from sh p have p0: "p = 0" and l: "length (rpcPromises s) = 1" by (simp_all add: rpcShape_def)
  with r have r0: "rpcPromises s ! 0 = Rejected e" by (simp add: rpcPromiseState_def)
  with l have ps: "rpcPromises s = [Rejected e]" by (rule nth_singleton)
  from co r p0 have c: "calling s = []" by (cases "calling s") (auto simp: callingOk_def)
  from sh p r0 n p0 ps c show ?thesis by (simp add: rpcShape_def)
qed

lemma endpoint_failed_step:
  assumes "client s = \<lparr>endpoint = None, endpointPromise = Some 0, clientWindowId = None\<rparr>"
    "rpcPromises s = [Rejected e]" "initializing s = []" "calling s = []"
  shows "rpcStep ev s = s\<lparr>refused := refused s @ map (\<lambda>c. (c, e)) (callsOf [ev])\<rparr>"
proof (cases ev)
  case (RpcCall m ps)
  from assms have "ensureEndpointInitialized s = (Some 0, s)"
    by (simp add: ensureEndpointInitialized_def unset_def)
  with assms RpcCall show ?thesis
    by (simp add: rpcSettle_def resumeCall_def rpcPromiseState_def)
next
  case (RpcServerUrlResult p r)
  with assms show ?thesis by simp
next
  case (RpcWindowIdResult p r)
  with assms show ?thesis by simp
qed

lemma callsOf_append: "callsOf (evs @ evs') = callsOf evs @ callsOf evs'"
  by (induction evs rule: callsOf.induct) simp_all

lemma endpoint_failed_run:
  assumes "client s = \<lparr>endpoint = None, endpointPromise = Some 0, clientWindowId = None\<rparr>"
    "rpcPromises s = [Rejected e]" "initializing s = []" "calling s = []"
  shows "rpcRun evs s = s\<lparr>refused := refused s @ map (\<lambda>c. (c, e)) (callsOf evs)\<rparr>"
  using assms unfolding rpcRun_def
proof (induction evs arbitrary: s)
  case Nil
  show ?case by simp
next
  case (Cons ev evs)
  let ?s1 = "s\<lparr>refused := refused s @ map (\<lambda>c. (c, e)) (callsOf [ev])\<rparr>"
  from Cons.prems have 1: "rpcStep ev s = ?s1" by (rule endpoint_failed_step)
  from Cons.prems have "fold rpcStep evs ?s1 = ?s1\<lparr>refused := refused ?s1 @ map (\<lambda>c. (c, e)) (callsOf evs)\<rparr>"
    by (intro Cons.IH) simp_all
  with 1 callsOf_append [of "[ev]" evs] show ?case by (simp del: rpcStep.simps)
qed

lemma promises_ensureServerUrl:
  "\<exists>xs. promises (snd (ensureServerUrlInitialized s)) = promises s @ xs"
  by (simp add: ensureServerUrlInitialized_def initializeServerUrl_def Let_def split: option.splits)

lemma promises_ensureWindowId:
  "\<exists>xs. promises (snd (ensureWindowIdInitialized s)) = promises s @ xs"
  by (simp add: ensureWindowIdInitialized_def initializeWindowId_def Let_def split: option.splits)

lemma promises_Fetch: "\<exists>xs. promises (fetchStep (Fetch u opts) s) = promises s @ xs"
proof -
  from promises_ensureServerUrl [of s] obtain xs
    where 1: "promises (snd (ensureServerUrlInitialized s)) = promises s @ xs" by blast
  from promises_ensureWindowId [of "snd (ensureServerUrlInitialized s)"] obtain ys
    where 2: "promises (snd (ensureWindowIdInitialized (snd (ensureServerUrlInitialized s))))
        = promises (snd (ensureServerUrlInitialized s)) @ ys" by blast
  from 1 2 show ?thesis by (simp add: case_prod_unfold Let_def)
qed

lemma settled_kept:
  assumes inv: "fetchInv s" and p: "p < length (promises s)" and np: "promises s ! p \<noteq> Pending"
  shows "p < length (promises (fetchStep ev s)) \<and> promises (fetchStep ev s) ! p = promises s ! p"
proof (cases ev)
  case (Fetch u opts)
  from promises_Fetch [of u opts s] obtain xs
    where "promises (fetchStep (Fetch u opts) s) = promises s @ xs" by blast
  with p Fetch show ?thesis by (simp add: nth_append del: fetchStep.simps)
next
  case (ServerUrlResult q r)
  show ?thesis
  proof (cases "q \<in> set (serverUrlLookups s)")
    case False
    with ServerUrlResult p show ?thesis by simp
  next
    case True
    from inv have "cacheInv (serverUrl s) (serverUrlPromise s) (serverUrlLookups s) (getServerUrlCalls s) (promises s)"
      by (simp add: fetchInv_def)
    from cacheInv_lookup [OF this True] np have "q \<noteq> p" by auto
    with True ServerUrlResult p show ?thesis
      by (cases r) (simp_all add: serverUrlArrived_def)
  qed
next
  case (WindowIdResult q r)
  show ?thesis
  proof (cases "q \<in> set (windowIdLookups s)")
    case False
    with WindowIdResult p show ?thesis by simp
  next
    case True
    from inv have "cacheInv (windowId s) (windowIdPromise s) (windowIdLookups s) (getWindowIdCalls s) (promises s)"
      by (simp add: fetchInv_def)
    from cacheInv_lookup [OF this True] np have "q \<noteq> p" by auto
    with True WindowIdResult p show ?thesis
      by (cases r) (simp_all add: windowIdArrived_def)
  qed
qed

lemma stored_ensureServerUrl:
  "serverUrlPromise s = Some p \<Longrightarrow> serverUrlPromise (snd (ensureServerUrlInitialized s)) = Some p"
  by (simp add: ensureServerUrlInitialized_def)

lemma stored_ensureWindowId:
  "windowIdPromise s = Some p \<Longrightarrow> windowIdPromise (snd (ensureWindowIdInitialized s)) = Some p"
  by (simp add: ensureWindowIdInitialized_def)

lemma arrived_frame [simp]:
  "serverUrlPromise (serverUrlArrived p r s) = serverUrlPromise s"
  "windowIdPromise (serverUrlArrived p r s) = windowIdPromise s"
  "serverUrlPromise (windowIdArrived p r s) = serverUrlPromise s"
  "windowIdPromise (windowIdArrived p r s) = windowIdPromise s"
  by (simp_all add: serverUrlArrived_def windowIdArrived_def split: sum.splits)

lemma stored_kept:
  "serverUrlPromise s = Some p \<Longrightarrow> serverUrlPromise (fetchStep ev s) = Some p"
  "windowIdPromise s = Some q \<Longrightarrow> windowIdPromise (fetchStep ev s) = Some q"
proof -
  show "serverUrlPromise (fetchStep ev s) = Some p" if "serverUrlPromise s = Some p"
    using that by (cases ev) (simp_all add: case_prod_unfold Let_def stored_ensureServerUrl)
  show "windowIdPromise (fetchStep ev s) = Some q" if "windowIdPromise s = Some q"
    using that by (cases ev) (simp_all add: case_prod_unfold Let_def stored_ensureWindowId)
qed

lemma promiseState_Rejected:
  "promiseState s p = Rejected e \<longleftrightarrow> p < length (promises s) \<and> promises s ! p = Rejected e"
  by (simp add: promiseState_def)

lemma serverUrl_failed_step:
  assumes "fetchInv s" "serverUrlPromise s = Some p" "promiseState s p = Rejected e"
  shows "serverUrlPromise (fetchStep ev s) = Some p \<and> promiseState (fetchStep ev s) p = Rejected e"
  using assms settled_kept [of s p ev] stored_kept(1) [of s p ev]
  by (simp add: promiseState_Rejected del: fetchStep.simps)

lemma windowId_failed_step:
  assumes "fetchInv s" "windowIdPromise s = Some p" "promiseState s p = Rejected e"
  shows "windowIdPromise (fetchStep ev s) = Some p \<and> promiseState (fetchStep ev s) p = Rejected e"
  using assms settled_kept [of s p ev] stored_kept(2) [of s p ev]
  by (simp add: promiseState_Rejected del: fetchStep.simps)

lemma serverUrl_failed_run:
  assumes "fetchInv s" "serverUrlPromise s = Some p" "promiseState s p = Rejected e"
  shows "serverUrlPromise (fetchRun evs s) = Some p \<and> promiseState (fetchRun evs s) p = Rejected e"
  using assms unfolding fetchRun_def
proof (induction evs arbitrary: s)
  case Nil
  then show ?case by simp
next
  case (Cons ev evs)
  from Cons.prems serverUrl_failed_step [of s p e ev] fetchInv_step [of s ev]
  have "fetchInv (fetchStep ev s)" "serverUrlPromise (fetchStep ev s) = Some p"
    "promiseState (fetchStep ev s) p = Rejected e" by simp_all
  from Cons.IH [OF this] show ?case by (simp del: fetchStep.simps)
qed

lemma windowId_failed_run:
  assumes "fetchInv s" "windowIdPromise s = Some p" "promiseState s p = Rejected e"
  shows "windowIdPromise (fetchRun evs s) = Some p \<and> promiseState (fetchRun evs s) p = Rejected e"
  using assms unfolding fetchRun_def
proof (induction evs arbitrary: s)
  case Nil
  then show ?case by simp
next
  case (Cons ev evs)
  from Cons.prems windowId_failed_step [of s p e ev] fetchInv_step [of s ev]
  have "fetchInv (fetchStep ev s)" "windowIdPromise (fetchStep ev s) = Some p"
    "promiseState (fetchStep ev s) p = Rejected e" by simp_all
  from Cons.IH [OF this] show ?case by (simp del: fetchStep.simps)
qed

lemma failed_no_suspended:
  assumes inv: "fetchInv s"
    and f: "serverUrlPromise s = Some p \<and> promiseState s p = Rejected e
            \<or> windowIdPromise s = Some p \<and> promiseState s p = Rejected e"
  shows "suspended s = []"
proof (cases "suspended s")
  case Nil
  then show ?thesis .
next
  case (Cons c cs)
  with inv have ok: "ensureOk (serverUrl s) (serverUrlPromise s) (promises s) (serverUrlReady c)"
    "ensureOk (windowId s) (windowIdPromise s) (promises s) (windowIdReady c)"
    by (simp_all add: fetchInv_def)
  from inv have su: "cacheInv (serverUrl s) (serverUrlPromise s) (serverUrlLookups s) (getServerUrlCalls s) (promises s)"
    and wi: "cacheInv (windowId s) (windowIdPromise s) (windowIdLookups s) (getWindowIdCalls s) (promises s)"
    by (simp_all add: fetchInv_def)
  from f show ?thesis
  proof
    assume a: "serverUrlPromise s = Some p \<and> promiseState s p = Rejected e"
    with su have "serverUrl s = None" by (simp add: cacheInv_def promiseState_Rejected)
    with a ok(1) show ?thesis
      by (cases "serverUrlReady c") (simp_all add: ensureOk_def unset_def promiseState_Rejected)
  next
    assume a: "windowIdPromise s = Some p \<and> promiseState s p = Rejected e"
    with wi have "windowId s = None" by (simp add: cacheInv_def promiseState_Rejected)
    with a ok(2) show ?thesis
      by (cases "windowIdReady c") (simp_all add: ensureOk_def unset_def promiseState_Rejected)
  qed
qed

lemma promiseState_suspended [simp]: "promiseState (s\<lparr>suspended := x\<rparr>) p = promiseState s p"
  by (simp add: promiseState_def)

lemma awaited_suspended [simp]:
  "serverUrlAwaited (s\<lparr>suspended := x\<rparr>) e = serverUrlAwaited s e"
  "windowIdAwaited (s\<lparr>suspended := x\<rparr>) e = windowIdAwaited s e"
  by (simp_all add: serverUrlAwaited_def windowIdAwaited_def cong: ensure_state.case_cong)

lemma Fetch_alone:
  assumes "suspended s = []"
  shows "fetchStep (Fetch u opts) s =
     continue
       \<lparr>input = u, options = opts,
        serverUrlReady = serverUrlAwaited (snd (ensureWindowIdInitialized (snd (ensureServerUrlInitialized s))))
                           (fst (ensureServerUrlInitialized s)),
        windowIdReady = windowIdAwaited (snd (ensureWindowIdInitialized (snd (ensureServerUrlInitialized s))))
                          (fst (ensureWindowIdInitialized (snd (ensureServerUrlInitialized s))))\<rparr>
       (snd (ensureWindowIdInitialized (snd (ensureServerUrlInitialized s))))"
proof -
  define a where "a = fst (ensureServerUrlInitialized s)"
  define s1 where "s1 = snd (ensureServerUrlInitialized s)"
  define b where "b = fst (ensureWindowIdInitialized s1)"
  define s2 where "s2 = snd (ensureWindowIdInitialized s1)"
  define c where "c = \<lparr>input = u, options = opts, serverUrlReady = a, windowIdReady = b\<rparr>"
  have step: "fetchStep (Fetch u opts) s = settle (s2\<lparr>suspended := suspended s2 @ [c]\<rparr>)"
    by (simp add: case_prod_unfold Let_def a_def s1_def b_def s2_def c_def)
  from assms have e: "suspended s2 = []" by (simp add: s2_def s1_def)
  then have r: "s2\<lparr>suspended := []\<rparr> = s2" by simp
  from e have "settle (s2\<lparr>suspended := suspended s2 @ [c]\<rparr>)
      = continue (advance (s2\<lparr>suspended := [c]\<rparr>) c) (s2\<lparr>suspended := []\<rparr>)"
    by (simp add: settle_def)
  then have "settle (s2\<lparr>suspended := suspended s2 @ [c]\<rparr>)
      = continue (advance (s2\<lparr>suspended := [c]\<rparr>) c) s2"
    by (simp only: r)
  also have "advance (s2\<lparr>suspended := [c]\<rparr>) c
      = \<lparr>input = u, options = opts, serverUrlReady = serverUrlAwaited s2 a,
         windowIdReady = windowIdAwaited s2 b\<rparr>"
    by (simp add: advance_def c_def)
  finally show ?thesis using step by (simp only: a_def s1_def b_def s2_def)
qed

lemma fetch_after_serverUrl_failed:
  assumes inv: "fetchInv s" and p: "serverUrlPromise s = Some p" and r: "promiseState s p = Rejected e"
  shows "failures (fetchStep (Fetch u opts) s) = failures s @ [(u, e)]
     \<and> requests (fetchStep (Fetch u opts) s) = requests s
     \<and> getServerUrlCalls (fetchStep (Fetch u opts) s) = 1
     \<and> serverUrl (fetchStep (Fetch u opts) s) = None"
proof -
  let ?s1 = "snd (ensureServerUrlInitialized s)"
  let ?s2 = "snd (ensureWindowIdInitialized ?s1)"
  from inv have su: "cacheInv (serverUrl s) (serverUrlPromise s) (serverUrlLookups s) (getServerUrlCalls s) (promises s)"
    by (simp add: fetchInv_def)
  with p r have n: "serverUrl s = None" "getServerUrlCalls s = 1"
    by (simp_all add: cacheInv_def promiseState_Rejected)
  with p have e1: "ensureServerUrlInitialized s = (Awaiting p, s)"
    by (simp add: ensureServerUrlInitialized_def unset_def)
  from promises_ensureWindowId [of s] obtain xs where "promises (snd (ensureWindowIdInitialized s)) = promises s @ xs"
    by blast
  with r have r2: "promiseState (snd (ensureWindowIdInitialized s)) p = Rejected e"
    by (simp add: promiseState_Rejected nth_append)
  from inv p r have "suspended s = []" by (intro failed_no_suspended [of s p e]) simp_all
  from Fetch_alone [OF this, of u opts] e1 r2 n show ?thesis
    by (simp add: continue_def serverUrlAwaited_def promiseAll_def)
qed

lemma promiseAll_Threw_right: "\<exists>e'. promiseAll a (Threw e) = Threw e'"
  by (cases a) (simp_all add: promiseAll_def)

lemma fetch_after_windowId_failed:
  assumes inv: "fetchInv s" and p: "windowIdPromise s = Some p" and r: "promiseState s p = Rejected e"
  shows "(\<exists>e'. failures (fetchStep (Fetch u opts) s) = failures s @ [(u, e')])
     \<and> requests (fetchStep (Fetch u opts) s) = requests s
     \<and> getWindowIdCalls (fetchStep (Fetch u opts) s) = 1
     \<and> windowId (fetchStep (Fetch u opts) s) = None"
proof -
  let ?s1 = "snd (ensureServerUrlInitialized s)"
  let ?a = "fst (ensureServerUrlInitialized s)"
  from inv have wi: "cacheInv (windowId s) (windowIdPromise s) (windowIdLookups s) (getWindowIdCalls s) (promises s)"
    by (simp add: fetchInv_def)
  with p r have n: "windowId s = None" "getWindowIdCalls s = 1"
    by (simp_all add: cacheInv_def promiseState_Rejected)
  with p have e2: "ensureWindowIdInitialized ?s1 = (Awaiting p, ?s1)"
    by (simp add: ensureWindowIdInitialized_def unset_def)
  from promises_ensureServerUrl [of s] obtain xs where "promises ?s1 = promises s @ xs"
    by blast
  with r have r2: "promiseState ?s1 p = Rejected e"
    by (simp add: promiseState_Rejected nth_append)
  from promiseAll_Threw_right [of "serverUrlAwaited ?s1 ?a" e] obtain e'
    where e': "promiseAll (serverUrlAwaited ?s1 ?a) (Threw e) = Threw e'" by blast
  from inv p r have "suspended s = []" by (intro failed_no_suspended [of s p e]) simp_all
  from Fetch_alone [OF this, of u opts] e2 r2 n e' show ?thesis
    by (simp add: continue_def windowIdAwaited_def)
qed

section \<open>Runs of the fetch module and of the RPC client\<close>

lemma windowId_step:
  "windowId (fetchStep ev s) = Some w \<Longrightarrow> windowId s = Some w \<or> (\<exists>p. ev = WindowIdResult p (Inr w))"
  by (cases ev) (auto simp: case_prod_unfold Let_def serverUrlArrived_def windowIdArrived_def
      split: if_splits sum.splits)

lemma windowId_origin:
  "windowId (fetchRun evs fetchModule) = Some w \<Longrightarrow> \<exists>p. WindowIdResult p (Inr w) \<in> set evs"
proof (induction evs arbitrary: w rule: rev_induct)
  case Nil
  then show ?case by (simp add: fetchRun_def fetchModule_def)
next
  case (snoc ev evs)
  from snoc.prems have "windowId (fetchStep ev (fetchRun evs fetchModule)) = Some w"
    by (simp add: fetchRun_def)
  from windowId_step [OF this] snoc.IH [of w] show ?case by auto
qed

lemma fetchRun_snoc2: "fetchRun (evs @ [a, b]) s = fetchStep b (fetchStep a (fetchRun evs s))"
  by (simp add: fetchRun_def del: fetchStep.simps)

lemma concurrent_fetches_resolved:
  assumes "cs \<noteq> []" "url \<noteq> []" "wid \<noteq> []"
  shows "fetchRun (fetchCalls cs @ [ServerUrlResult 0 (Inr url), WindowIdResult 1 (Inr wid)]) fetchModule =
     (fetchWaiting cs)\<lparr>serverUrl := Some url, windowId := Some wid,
        promises := [Fulfilled url, Fulfilled wid],
        serverUrlLookups := [], windowIdLookups := [], suspended := [],
        requests := map (\<lambda>c. \<lparr>requestUrl = buildUrl url (fst c),
                                requestInit = enhancedOptions (snd c) (Some wid)\<rparr>) cs\<rparr>"
proof -
  have "fetchRun (fetchCalls cs @ [ServerUrlResult 0 (Inr url), WindowIdResult 1 (Inr wid)]) fetchModule
      = fetchStep (WindowIdResult 1 (Inr wid)) (fetchStep (ServerUrlResult 0 (Inr url)) (fetchWaiting cs))"
    by (simp only: fetchRun_snoc2 concurrent_fetches [OF assms(1)])
  also have "fetchStep (ServerUrlResult 0 (Inr url)) (fetchWaiting cs) =
     (fetchWaiting cs)\<lparr>serverUrl := Some url, promises := [Fulfilled url, Pending],
        serverUrlLookups := [],
        suspended := map (\<lambda>c. (awaitingBoth c)\<lparr>serverUrlReady := Completed\<rparr>) cs\<rparr>"
    using assms(2) by (rule serverUrl_arrives)
  finally show ?thesis by (simp only: windowId_arrives [OF assms(3)])
qed

lemma concurrent_fetches_failed:
  assumes "cs \<noteq> []"
  shows "fetchRun (fetchCalls cs @ [ServerUrlResult 0 (Inl reason)]) fetchModule =
     (fetchWaiting cs)\<lparr>promises := [Rejected (Error (''Failed to get server URL: '' @ reason)), Pending],
        serverUrlLookups := [], suspended := [],
        failures := map (\<lambda>c. (fst c, Error (''Failed to get server URL: '' @ reason))) cs\<rparr>"
proof -
  have "fetchRun (fetchCalls cs @ [ServerUrlResult 0 (Inl reason)]) fetchModule
      = fetchStep (ServerUrlResult 0 (Inl reason)) (fetchRun (fetchCalls cs) fetchModule)"
    by (simp add: fetchRun_def del: fetchStep.simps)
  then show ?thesis by (simp only: concurrent_fetches [OF assms] serverUrl_fails)
qed

lemma header_example:
  "requests (fetchRun
      [Fetch ''/api'' [(''headers'', JObj [(''X-Pyloid-Window-Id'', JStr ''evil''), (''Accept'', JStr ''text/plain'')])],
       ServerUrlResult 0 (Inr ''http://x/''), WindowIdResult 1 (Inr ''w1'')] fetchModule)
   = [\<lparr>requestUrl = ''http://x/api'',
       requestInit = [(''headers'', JObj [(''X-Pyloid-Window-Id'', JStr ''w1''), (''Accept'', JStr ''text/plain'')])]\<rparr>]"
proof -
  define c where "c = (''/api'', [(''headers'', JObj [(''X-Pyloid-Window-Id'', JStr ''evil''), (''Accept'', JStr ''text/plain'')])])"
  have e: "[Fetch ''/api'' [(''headers'', JObj [(''X-Pyloid-Window-Id'', JStr ''evil''), (''Accept'', JStr ''text/plain'')])],
       ServerUrlResult 0 (Inr ''http://x/''), WindowIdResult 1 (Inr ''w1'')]
      = fetchCalls [c] @ [ServerUrlResult 0 (Inr ''http://x/''), WindowIdResult 1 (Inr ''w1'')]"
    by (simp add: fetchCalls_def c_def)
  have "requests (fetchRun (fetchCalls [c] @ [ServerUrlResult 0 (Inr ''http://x/''), WindowIdResult 1 (Inr ''w1'')]) fetchModule)
      = [\<lparr>requestUrl = buildUrl ''http://x/'' (fst c), requestInit = enhancedOptions (snd c) (Some ''w1'')\<rparr>]"
    by (subst concurrent_fetches_resolved) simp_all
  also have "buildUrl ''http://x/'' (fst c) = ''http://x/api''"
    by (simp add: c_def buildUrl_def startsWith_def dropTrailingSlash_def dropLeadingSlash_def)
  also have "enhancedOptions (snd c) (Some ''w1'')
      = [(''headers'', JObj [(''X-Pyloid-Window-Id'', JStr ''w1''), (''Accept'', JStr ''text/plain'')])]"
    by (simp add: c_def enhancedOptions_def getProp_def nullable_def)
  finally show ?thesis by (simp only: e)
qed

lemma stored_after_ensure:
  "cachesOk s \<Longrightarrow> serverUrlPromise (snd (ensureServerUrlInitialized s)) \<noteq> None"
  "cachesOk s \<Longrightarrow> windowIdPromise (snd (ensureWindowIdInitialized s)) \<noteq> None"
  by (auto simp: cachesOk_def cacheInv_def ensureServerUrlInitialized_def ensureWindowIdInitialized_def
      initializeServerUrl_def initializeWindowId_def Let_def unset_def split: option.splits)

lemma stored_after_Fetch:
  assumes "fetchInv s"
  shows "serverUrlPromise (fetchStep (Fetch u opts) s) \<noteq> None
       \<and> windowIdPromise (fetchStep (Fetch u opts) s) \<noteq> None"
proof -
  from assms have c: "cachesOk s" by (simp add: fetchInv_caches)
  then have "cachesOk (snd (ensureServerUrlInitialized s))" by (rule cachesOk_ensureServerUrl)
  from stored_after_ensure(1) [OF c] stored_after_ensure(2) [OF this]
  show ?thesis by (simp add: case_prod_unfold Let_def)
qed

lemma stored_kept_run:
  "serverUrlPromise s \<noteq> None \<Longrightarrow> serverUrlPromise (fetchRun evs s) \<noteq> None"
  "windowIdPromise s \<noteq> None \<Longrightarrow> windowIdPromise (fetchRun evs s) \<noteq> None"
proof -
  show "serverUrlPromise (fetchRun evs s) \<noteq> None" if "serverUrlPromise s \<noteq> None"
    using that unfolding fetchRun_def
  proof (induction evs arbitrary: s)
    case Nil
    then show ?case by simp
  next
    case (Cons ev evs)
    from Cons.prems obtain p where "serverUrlPromise s = Some p" by blast
    then have "serverUrlPromise (fetchStep ev s) = Some p" by (rule stored_kept)
    then have "serverUrlPromise (fetchStep ev s) \<noteq> None" by simp
    from Cons.IH [OF this] show ?case by (simp del: fetchStep.simps)
  qed
  show "windowIdPromise (fetchRun evs s) \<noteq> None" if "windowIdPromise s \<noteq> None"
    using that unfolding fetchRun_def
  proof (induction evs arbitrary: s)
    case Nil
    then show ?case by simp
  next
    case (Cons ev evs)
    from Cons.prems obtain p where "windowIdPromise s = Some p" by blast
    then have "windowIdPromise (fetchStep ev s) = Some p" by (rule stored_kept)
    then have "windowIdPromise (fetchStep ev s) \<noteq> None" by simp
    from Cons.IH [OF this] show ?case by (simp del: fetchStep.simps)
  qed
qed

lemma resolver_calls:
  "getServerUrlCalls (fetchRun evs fetchModule) \<le> 1 \<and> getWindowIdCalls (fetchRun evs fetchModule) \<le> 1"
proof -
  have "fetchInv (fetchRun evs fetchModule)" by (rule fetchInv_run) (rule fetchInv_fetchModule)
  then show ?thesis by (auto simp: fetchInv_def cacheInv_def split: option.splits)
qed

lemma resolver_calls_after_Fetch:
  assumes "Fetch u opts \<in> set evs"
  shows "getServerUrlCalls (fetchRun evs fetchModule) = 1 \<and> getWindowIdCalls (fetchRun evs fetchModule) = 1"
proof -
  from assms obtain xs ys where evs: "evs = xs @ [Fetch u opts] @ ys"
    by (auto dest: split_list)
  have i: "fetchInv (fetchRun xs fetchModule)" by (rule fetchInv_run) (rule fetchInv_fetchModule)
  have r: "fetchRun evs fetchModule = fetchRun ys (fetchStep (Fetch u opts) (fetchRun xs fetchModule))"
    by (simp add: evs fetchRun_def del: fetchStep.simps)
  from stored_after_Fetch [OF i, of u opts]
  have "serverUrlPromise (fetchRun evs fetchModule) \<noteq> None" "windowIdPromise (fetchRun evs fetchModule) \<noteq> None"
    by (simp_all add: r stored_kept_run del: fetchStep.simps)
  moreover have "fetchInv (fetchRun evs fetchModule)" by (rule fetchInv_run) (rule fetchInv_fetchModule)
  ultimately show ?thesis by (auto simp: fetchInv_def cacheInv_def split: option.splits)
qed

lemma awaiting_stored:
  assumes "c \<in> set (suspended (fetchRun evs fetchModule))"
  shows "(\<forall>p. serverUrlReady c = Awaiting p \<longrightarrow>
            serverUrlPromise (fetchRun evs fetchModule) = Some p \<and> promiseState (fetchRun evs fetchModule) p = Pending)
       \<and> (\<forall>p. windowIdReady c = Awaiting p \<longrightarrow>
            windowIdPromise (fetchRun evs fetchModule) = Some p \<and> promiseState (fetchRun evs fetchModule) p = Pending)"
proof -
  have "fetchInv (fetchRun evs fetchModule)" by (rule fetchInv_run) (rule fetchInv_fetchModule)
  with assms show ?thesis by (auto simp: fetchInv_def ensureOk_def promiseState_def)
qed

lemma requestsUseBase_continue: "requestsUseBase s \<Longrightarrow> requestsUseBase (continue c s)"
  by (auto simp: requestsUseBase_def continue_def sendRequest_def split: ensure_state.splits option.splits)

lemma requestsUseBase_fold: "requestsUseBase s \<Longrightarrow> requestsUseBase (fold continue cs s)"
  by (induction cs arbitrary: s) (simp_all add: requestsUseBase_continue)

lemma requestsUseBase_settle:
  "requestsUseBase s \<Longrightarrow> requestsUseBase (settle s)"
proof -
  assume "requestsUseBase s"
  then have "requestsUseBase (s\<lparr>suspended := []\<rparr>)" by (simp add: requestsUseBase_def)
  then show ?thesis unfolding settle_def by (rule requestsUseBase_fold)
qed

lemma requestsUseBase_step:
  assumes inv: "fetchInv s" and b: "requestsUseBase s"
  shows "requestsUseBase (fetchStep ev s)"
proof (cases ev)
  case (Fetch u opts)
  from b have "requestsUseBase ((snd (ensureWindowIdInitialized (snd (ensureServerUrlInitialized s))))
      \<lparr>suspended := x\<rparr>)" for x
    by (simp add: requestsUseBase_def)
  then show ?thesis by (simp add: Fetch case_prod_unfold Let_def requestsUseBase_settle)
next
  case (ServerUrlResult p r)
  show ?thesis
  proof (cases "p \<in> set (serverUrlLookups s)")
    case False
    with b ServerUrlResult show ?thesis by simp
  next
    case True
    with inv have "serverUrl s = None"
      by (auto simp: fetchInv_def cacheInv_def split: option.splits promise_state.splits)
    with b have "requests s = []" by (cases "requests s") (auto simp: requestsUseBase_def)
    then have "requestsUseBase (serverUrlArrived p r s)"
      by (simp add: requestsUseBase_def serverUrlArrived_def split: sum.splits)
    with True ServerUrlResult show ?thesis by (simp add: requestsUseBase_settle)
  qed
next
  case (WindowIdResult p r)
  from b have "requestsUseBase (windowIdArrived p r s)"
    by (simp add: requestsUseBase_def windowIdArrived_def split: sum.splits)
  with b WindowIdResult show ?thesis by (simp add: requestsUseBase_settle)
qed

lemma requestsUseBase_run: "requestsUseBase (fetchRun evs fetchModule)"
proof (induction evs rule: rev_induct)
  case Nil
  show ?case by (simp add: fetchRun_def requestsUseBase_def fetchModule_def)
next
  case (snoc ev evs)
  have "fetchInv (fetchRun evs fetchModule)" by (rule fetchInv_run) (rule fetchInv_fetchModule)
  from requestsUseBase_step [OF this snoc] show ?case by (simp add: fetchRun_def del: fetchStep.simps)
qed

lemma rpcRun_snoc: "rpcRun (evs @ [a]) s = rpcStep a (rpcRun evs s)"
  by (simp add: rpcRun_def del: rpcStep.simps)

lemma rpcRun_snoc2: "rpcRun (evs @ [a, b]) s = rpcStep b (rpcStep a (rpcRun evs s))"
  by (simp add: rpcRun_def del: rpcStep.simps)

lemma concurrent_calls_resolved:
  assumes "cs \<noteq> []" "url \<noteq> []"
  shows "rpcRun (rpcCalls cs @ [RpcServerUrlResult 0 (Inr url), RpcWindowIdResult 0 (Inr wid)]) lazyClient =
     (rpcWaiting cs)\<lparr>client := \<lparr>endpoint = Some url, endpointPromise = Some 0, clientWindowId = Some wid\<rparr>,
        rpcPromises := [Fulfilled url], initializing := [], windowIdCalls := 1, calling := [],
        posted := map (\<lambda>c. (url, \<lparr>jsonrpc = ''2.0'', id' = Some wid, method = fst c,
                                    params = (if snd c = JUndefined then JObj [] else snd c)\<rparr>)) cs\<rparr>"
  by (simp only: rpcRun_snoc2 concurrent_calls [OF assms(1)] endpoint_arrives session_arrives [OF assms(2)])

lemma concurrent_calls_failed:
  assumes "cs \<noteq> []"
  shows "rpcRun (rpcCalls cs @ [RpcServerUrlResult 0 (Inl reason)]) lazyClient =
     (rpcWaiting cs)\<lparr>rpcPromises := [Rejected (Error (''Failed to get RPC endpoint: '' @ reason))],
        initializing := [], calling := [],
        refused := map (\<lambda>c. (c, Error (''Failed to get RPC endpoint: '' @ reason))) cs\<rparr>"
  by (simp only: rpcRun_snoc concurrent_calls [OF assms] endpoint_fails)

lemma session_fails:
  "rpcStep (RpcWindowIdResult 0 (Inl reason))
       ((rpcWaiting cs)\<lparr>client := \<lparr>endpoint = Some url, endpointPromise = Some 0, clientWindowId = None\<rparr>,
          initializing := [(0, Some url)], windowIdCalls := 1\<rparr>) =
     (rpcWaiting cs)\<lparr>client := \<lparr>endpoint = Some url, endpointPromise = Some 0, clientWindowId = None\<rparr>,
        rpcPromises := [Rejected (Error (''Failed to get RPC endpoint: '' @ reason))],
        initializing := [], windowIdCalls := 1, calling := [],
        refused := map (\<lambda>c. (c, Error (''Failed to get RPC endpoint: '' @ reason))) cs\<rparr>"
proof -
  define s0 where "s0 = (rpcWaiting cs)\<lparr>client := \<lparr>endpoint = Some url, endpointPromise = Some 0, clientWindowId = None\<rparr>,
          initializing := [(0, Some url)], windowIdCalls := 1\<rparr>"
  define s1 where "s1 = sessionArrived 0 url (Inl reason) s0"
  have s1: "s1 = s0\<lparr>rpcPromises := [Rejected (Error (''Failed to get RPC endpoint: '' @ reason))],
        initializing := []\<rparr>"
    by (simp add: s1_def s0_def sessionArrived_def rpcWaiting_def)
  have c: "\<forall>c \<in> set (calling s1). rpcPromiseState (s1\<lparr>calling := []\<rparr>) (fst c)
      = Rejected (Error (''Failed to get RPC endpoint: '' @ reason))"
    by (simp add: s1 s0_def rpcWaiting_def rpcPromiseState_def)
  from fold_resumeCall_rejected [OF c]
  have "rpcSettle s1 = (rpcWaiting cs)\<lparr>client := \<lparr>endpoint = Some url, endpointPromise = Some 0, clientWindowId = None\<rparr>,
        rpcPromises := [Rejected (Error (''Failed to get RPC endpoint: '' @ reason))],
        initializing := [], windowIdCalls := 1, calling := [],
        refused := map (\<lambda>c. (c, Error (''Failed to get RPC endpoint: '' @ reason))) cs\<rparr>"
    by (simp add: rpcSettle_def) (simp add: s1 s0_def rpcWaiting_def comp_def)
  moreover have "map_of (initializing s0) 0 = Some (Some url)" by (simp add: s0_def)
  ultimately have "rpcStep (RpcWindowIdResult 0 (Inl reason)) s0 =
     (rpcWaiting cs)\<lparr>client := \<lparr>endpoint = Some url, endpointPromise = Some 0, clientWindowId = None\<rparr>,
        rpcPromises := [Rejected (Error (''Failed to get RPC endpoint: '' @ reason))],
        initializing := [], windowIdCalls := 1, calling := [],
        refused := map (\<lambda>c. (c, Error (''Failed to get RPC endpoint: '' @ reason))) cs\<rparr>"
    by (simp add: s1_def)
  then show ?thesis by (simp only: s0_def)
qed

lemma session_failed_step:
  assumes "client s = \<lparr>endpoint = Some url, endpointPromise = Some 0, clientWindowId = None\<rparr>"
    "url \<noteq> []" "initializing s = []"
  shows "rpcStep ev s = s\<lparr>posted := posted s @
      map (\<lambda>c. (url, \<lparr>jsonrpc = ''2.0'', id' = None, method = fst c,
                       params = (if snd c = JUndefined then JObj [] else snd c)\<rparr>)) (callsOf [ev])\<rparr>"
proof (cases ev)
  case (RpcCall m ps)
  from assms have "ensureEndpointInitialized s = (None, s)"
    by (simp add: ensureEndpointInitialized_def unset_def)
  with assms RpcCall show ?thesis
    by (simp add: postRequest_def buildRequest_def)
next
  case (RpcServerUrlResult p r)
  with assms show ?thesis by simp
next
  case (RpcWindowIdResult p r)
  with assms show ?thesis by simp
qed

lemma session_failed_run:
  assumes "client s = \<lparr>endpoint = Some url, endpointPromise = Some 0, clientWindowId = None\<rparr>"
    "url \<noteq> []" "initializing s = []"
  shows "rpcRun evs s = s\<lparr>posted := posted s @
      map (\<lambda>c. (url, \<lparr>jsonrpc = ''2.0'', id' = None, method = fst c,
                       params = (if snd c = JUndefined then JObj [] else snd c)\<rparr>)) (callsOf evs)\<rparr>"
  using assms unfolding rpcRun_def
proof (induction evs arbitrary: s)
  case Nil
  show ?case by simp
next
  case (Cons ev evs)
  let ?f = "\<lambda>c. (url, \<lparr>jsonrpc = ''2.0'', id' = None, method = fst c,
                       params = (if snd c = JUndefined then JObj [] else snd c)\<rparr>)"
  let ?s1 = "s\<lparr>posted := posted s @ map ?f (callsOf [ev])\<rparr>"
  from Cons.prems have 1: "rpcStep ev s = ?s1" by (rule session_failed_step)
  from Cons.prems have "fold rpcStep evs ?s1 = ?s1\<lparr>posted := posted ?s1 @ map ?f (callsOf evs)\<rparr>"
    by (intro Cons.IH) simp_all
  with 1 callsOf_append [of "[ev]" evs] show ?case by (simp del: rpcStep.simps)
qed

lemma session_failed_shape:
  assumes inv: "rpcInv s" and p: "endpointPromise (client s) = Some p"
    and r: "rpcPromiseState s p = Rejected e" and n: "endpoint (client s) = Some url"
  shows "p = 0 \<and> client s = \<lparr>endpoint = Some url, endpointPromise = Some 0, clientWindowId = None\<rparr>
     \<and> rpcPromises s = [Rejected e] \<and> initializing s = [] \<and> calling s = []
     \<and> serverUrlCalls s = 1 \<and> windowIdCalls s = 1"
proof -
  from inv have sh: "rpcShape s" and co: "callingOk s" by (simp_all add: rpcInv_def)
  from sh p have p0: "p = 0" and l: "length (rpcPromises s) = 1" by (simp_all add: rpcShape_def)
  with r have r0: "rpcPromises s ! 0 = Rejected e" by (simp add: rpcPromiseState_def)
  with l have ps: "rpcPromises s = [Rejected e]" by (rule nth_singleton)
  from co r p0 have c: "calling s = []" by (cases "calling s") (auto simp: callingOk_def)
  from sh p r0 n p0 ps c show ?thesis by (simp add: rpcShape_def)
qed

lemma endpointPromise_kept:
  "endpointPromise (client s) = Some p \<Longrightarrow> endpointPromise (client (rpcStep ev s)) = Some p"
  by (cases ev)
    (auto simp: ensureEndpointInitialized_def endpointArrived_def sessionArrived_def
      split: option.splits sum.splits if_splits)

lemma endpointPromise_kept_run:
  "endpointPromise (client s) = Some p \<Longrightarrow> endpointPromise (client (rpcRun evs s)) = Some p"
  unfolding rpcRun_def
proof (induction evs arbitrary: s)
  case Nil
  then show ?case by simp
next
  case (Cons ev evs)
  from Cons.prems have "endpointPromise (client (rpcStep ev s)) = Some p" by (rule endpointPromise_kept)
  from Cons.IH [OF this] show ?case by (simp del: rpcStep.simps)
qed

lemma endpointPromise_after_call:
  assumes "rpcInv s"
  shows "endpointPromise (client (rpcStep (RpcCall m ps) s)) = Some 0"
proof -
  from assms have "rpcInv (rpcStep (RpcCall m ps) s)" by (rule rpcInv_step)
  then have sh: "rpcShape (rpcStep (RpcCall m ps) s)" by (simp add: rpcInv_def)
  from assms have "rpcShape s" by (simp add: rpcInv_def)
  then have "endpointPromise (client (rpcStep (RpcCall m ps) s)) \<noteq> None"
    by (auto simp: rpcShape_def ensureEndpointInitialized_def initializeEndpoint_def Let_def unset_def
        split: option.splits)
  with sh show ?thesis by (auto simp: rpcShape_def split: option.splits)
qed

lemma rpc_resolver_calls:
  "serverUrlCalls (rpcRun evs lazyClient) \<le> 1 \<and> windowIdCalls (rpcRun evs lazyClient) \<le> 1"
proof -
  have "rpcInv (rpcRun evs lazyClient)" by (rule rpcInv_run) (rule rpcInv_lazyClient)
  then have "rpcShape (rpcRun evs lazyClient)" by (simp add: rpcInv_def)
  then show ?thesis by (rule rpcShape_calls)
qed

lemma rpc_resolver_calls_after_call:
  assumes "RpcCall m ps \<in> set evs"
  shows "serverUrlCalls (rpcRun evs lazyClient) = 1 \<and> endpointPromise (client (rpcRun evs lazyClient)) = Some 0"
proof -
  from assms obtain xs ys where evs: "evs = xs @ [RpcCall m ps] @ ys"
    by (auto dest: split_list)
  have i: "rpcInv (rpcRun xs lazyClient)" by (rule rpcInv_run) (rule rpcInv_lazyClient)
  have r: "rpcRun evs lazyClient = rpcRun ys (rpcStep (RpcCall m ps) (rpcRun xs lazyClient))"
    by (simp add: evs rpcRun_def del: rpcStep.simps)
  from endpointPromise_after_call [OF i, of m ps]
  have p: "endpointPromise (client (rpcRun evs lazyClient)) = Some 0"
    by (simp add: r endpointPromise_kept_run del: rpcStep.simps)
  moreover have "rpcInv (rpcRun evs lazyClient)" by (rule rpcInv_run) (rule rpcInv_lazyClient)
  ultimately show ?thesis by (simp add: rpcInv_def rpcShape_def)
qed

lemma calling_stored:
  assumes "c \<in> set (calling (rpcRun evs lazyClient))"
  shows "endpointPromise (client (rpcRun evs lazyClient)) = Some (fst c)
     \<and> rpcPromiseState (rpcRun evs lazyClient) (fst c) = Pending"
proof -
  have "rpcInv (rpcRun evs lazyClient)" by (rule rpcInv_run) (rule rpcInv_lazyClient)
  with assms show ?thesis by (auto simp: rpcInv_def callingOk_def)
qed

lemma postedToEndpoint_postRequest: "postedToEndpoint s \<Longrightarrow> postedToEndpoint (postRequest m ps s)"
  by (auto simp: postedToEndpoint_def postRequest_def split: option.splits)

lemma postedToEndpoint_resumeCall: "postedToEndpoint s \<Longrightarrow> postedToEndpoint (resumeCall c s)"
proof (cases c)
  case (fields p m ps)
  assume b: "postedToEndpoint s"
  show ?thesis
  proof (cases "rpcPromiseState s p")
    case Pending
    with b fields show ?thesis by (simp add: resumeCall_def postedToEndpoint_def)
  next
    case (Fulfilled v)
    with b fields show ?thesis by (simp add: resumeCall_def postedToEndpoint_postRequest)
  next
    case (Rejected e)
    with b fields show ?thesis by (simp add: resumeCall_def postedToEndpoint_def)
  qed
qed

lemma postedToEndpoint_fold: "postedToEndpoint s \<Longrightarrow> postedToEndpoint (fold resumeCall cs s)"
  by (induction cs arbitrary: s) (simp_all add: postedToEndpoint_resumeCall)

lemma postedToEndpoint_calling [simp]: "postedToEndpoint (s\<lparr>calling := x\<rparr>) = postedToEndpoint s"
  by (simp add: postedToEndpoint_def)

lemma postedToEndpoint_rpcSettle: "postedToEndpoint s \<Longrightarrow> postedToEndpoint (rpcSettle s)"
  by (simp add: rpcSettle_def postedToEndpoint_fold)

lemma postedToEndpoint_ensure:
  "postedToEndpoint s \<Longrightarrow> postedToEndpoint (snd (ensureEndpointInitialized s))"
  by (auto simp: postedToEndpoint_def ensureEndpointInitialized_def initializeEndpoint_def Let_def
      split: option.splits)

lemma postedToEndpoint_step:
  assumes inv: "rpcInv s" and b: "postedToEndpoint s"
  shows "postedToEndpoint (rpcStep ev s)"
proof (cases ev)
  case (RpcCall m ps)
  from b have "postedToEndpoint (snd (ensureEndpointInitialized s))" by (rule postedToEndpoint_ensure)
  then show ?thesis
    by (cases "ensureEndpointInitialized s")
      (auto simp: RpcCall postedToEndpoint_postRequest postedToEndpoint_rpcSettle split: option.splits)
next
  case (RpcServerUrlResult p r)
  show ?thesis
  proof (cases "(p, None) \<in> set (initializing s)")
    case False
    with b RpcServerUrlResult show ?thesis by simp
  next
    case True
    with inv have "endpoint (client s) = None"
      by (auto simp: rpcInv_def rpcShape_def split: option.splits promise_state.splits)
    with b have "posted s = []" by (cases "posted s") (auto simp: postedToEndpoint_def)
    then have "postedToEndpoint (endpointArrived p r s)"
      by (simp add: postedToEndpoint_def endpointArrived_def split: sum.splits)
    with True RpcServerUrlResult show ?thesis by (simp add: postedToEndpoint_rpcSettle)
  qed
next
  case (RpcWindowIdResult p r)
  from b have "postedToEndpoint (sessionArrived p url r s)" for url
    by (simp add: postedToEndpoint_def sessionArrived_def split: sum.splits)
  with b RpcWindowIdResult show ?thesis
    by (simp add: postedToEndpoint_rpcSettle split: option.splits)
qed

lemma postedToEndpoint_run: "postedToEndpoint (rpcRun evs lazyClient)"
proof (induction evs rule: rev_induct)
  case Nil
  show ?case by (simp add: rpcRun_def postedToEndpoint_def lazyClient_def)
next
  case (snoc ev evs)
  have "rpcInv (rpcRun evs lazyClient)" by (rule rpcInv_run) (rule rpcInv_lazyClient)
  from postedToEndpoint_step [OF this snoc] show ?case by (simp add: rpcRun_def del: rpcStep.simps)
qed

lemma requests_of_run:
  assumes "r \<in> set (requests (fetchRun evs fetchModule))"
  shows "\<exists>b w i. w \<noteq> [] \<and> serverUrl (fetchRun evs fetchModule) = Some b
           \<and> windowId (fetchRun evs fetchModule) = Some w
           \<and> requestUrl r = buildUrl b i \<and> sessionHeader r = JStr w"
proof -
  have i: "fetchInv (fetchRun evs fetchModule)" by (rule fetchInv_run) (rule fetchInv_fetchModule)
  with assms obtain w where w: "w \<noteq> []" "windowId (fetchRun evs fetchModule) = Some w" "sessionHeader r = JStr w"
    by (auto simp: fetchInv_def)
  from requestsUseBase_run [of evs] assms obtain b i
    where b: "serverUrl (fetchRun evs fetchModule) = Some b" "requestUrl r = buildUrl b i"
    by (auto simp: requestsUseBase_def)
  with w show ?thesis by blast
qed

lemma posted_of_run:
  "r \<in> set (posted (rpcRun evs lazyClient)) \<Longrightarrow> endpoint (client (rpcRun evs lazyClient)) = Some (fst r)"
  using postedToEndpoint_run [of evs] by (simp add: postedToEndpoint_def)

lemma ping_example:
  "rpcRun [RpcCall ''ping'' JUndefined, RpcServerUrlResult 0 (Inr ''http://x/rpc''),
           RpcWindowIdResult 0 (Inr ''w1'')] lazyClient
     = (rpcWaiting [(''ping'', JUndefined)])
         \<lparr>client := \<lparr>endpoint = Some ''http://x/rpc'', endpointPromise = Some 0, clientWindowId = Some ''w1''\<rparr>,
          rpcPromises := [Fulfilled ''http://x/rpc''], initializing := [], windowIdCalls := 1, calling := [],
          posted := [(''http://x/rpc'', \<lparr>jsonrpc = ''2.0'', id' = Some ''w1'', method = ''ping'',
                                        params = JObj []\<rparr>)]\<rparr>"
proof -
  have "rpcRun (rpcCalls [(''ping'', JUndefined)] @ [RpcServerUrlResult 0 (Inr ''http://x/rpc''),
           RpcWindowIdResult 0 (Inr ''w1'')]) lazyClient
     = (rpcWaiting [(''ping'', JUndefined)])
         \<lparr>client := \<lparr>endpoint = Some ''http://x/rpc'', endpointPromise = Some 0, clientWindowId = Some ''w1''\<rparr>,
          rpcPromises := [Fulfilled ''http://x/rpc''], initializing := [], windowIdCalls := 1, calling := [],
          posted := [(''http://x/rpc'', \<lparr>jsonrpc = ''2.0'', id' = Some ''w1'', method = ''ping'',
                                        params = JObj []\<rparr>)]\<rparr>"
    by (subst concurrent_calls_resolved) simp_all
  then show ?thesis by (simp only: rpcCalls_def list.map append.simps fst_conv snd_conv)
qed

lemma initialized_step:
  assumes "client s = \<lparr>endpoint = Some url, endpointPromise = Some 0, clientWindowId = w\<rparr>"
    "url \<noteq> []" "initializing s = []"
  shows "rpcStep ev s = s\<lparr>posted := posted s @
      map (\<lambda>c. (url, \<lparr>jsonrpc = ''2.0'', id' = w, method = fst c,
                       params = (if snd c = JUndefined then JObj [] else snd c)\<rparr>)) (callsOf [ev])\<rparr>"
proof (cases ev)
  case (RpcCall m ps)
  from assms have "ensureEndpointInitialized s = (None, s)"
    by (simp add: ensureEndpointInitialized_def unset_def)
  with assms RpcCall show ?thesis
    by (simp add: postRequest_def buildRequest_def)
next
  case (RpcServerUrlResult p r)
  with assms show ?thesis by simp
next
  case (RpcWindowIdResult p r)
  with assms show ?thesis by simp
qed

lemma initialized_run:
  assumes "client s = \<lparr>endpoint = Some url, endpointPromise = Some 0, clientWindowId = w\<rparr>"
    "url \<noteq> []" "initializing s = []"
  shows "rpcRun evs s = s\<lparr>posted := posted s @
      map (\<lambda>c. (url, \<lparr>jsonrpc = ''2.0'', id' = w, method = fst c,
                       params = (if snd c = JUndefined then JObj [] else snd c)\<rparr>)) (callsOf evs)\<rparr>"
  using assms unfolding rpcRun_def
proof (induction evs arbitrary: s)
  case Nil
  show ?case by simp
next
  case (Cons ev evs)
  let ?f = "\<lambda>c. (url, \<lparr>jsonrpc = ''2.0'', id' = w, method = fst c,
                       params = (if snd c = JUndefined then JObj [] else snd c)\<rparr>)"
  let ?s1 = "s\<lparr>posted := posted s @ map ?f (callsOf [ev])\<rparr>"
  from Cons.prems have 1: "rpcStep ev s = ?s1" by (rule initialized_step)
  from Cons.prems have "fold rpcStep evs ?s1 = ?s1\<lparr>posted := posted ?s1 @ map ?f (callsOf evs)\<rparr>"
    by (intro Cons.IH) simp_all
  with 1 callsOf_append [of "[ev]" evs] show ?case by (simp del: rpcStep.simps)
qed

lemma rpcRun_append: "rpcRun (evs @ evs') s = rpcRun evs' (rpcRun evs s)"
  by (simp add: rpcRun_def)

lemma lazy_calls_posted:
  assumes "cs \<noteq> []" "url \<noteq> []"
  shows "posted (rpcRun (rpcCalls cs @ [RpcServerUrlResult 0 (Inr url), RpcWindowIdResult 0 (Inr wid)] @ evs) lazyClient)
     = map (\<lambda>c. (url, \<lparr>jsonrpc = ''2.0'', id' = Some wid, method = fst c,
                       params = (if snd c = JUndefined then JObj [] else snd c)\<rparr>)) (cs @ callsOf evs)"
proof -
  define s where "s = rpcRun (rpcCalls cs @ [RpcServerUrlResult 0 (Inr url), RpcWindowIdResult 0 (Inr wid)]) lazyClient"
  have s: "s = (rpcWaiting cs)\<lparr>client := \<lparr>endpoint = Some url, endpointPromise = Some 0, clientWindowId = Some wid\<rparr>,
        rpcPromises := [Fulfilled url], initializing := [], windowIdCalls := 1, calling := [],
        posted := map (\<lambda>c. (url, \<lparr>jsonrpc = ''2.0'', id' = Some wid, method = fst c,
                                    params = (if snd c = JUndefined then JObj [] else snd c)\<rparr>)) cs\<rparr>"
    unfolding s_def using assms by (rule concurrent_calls_resolved)
  have "rpcRun evs s = s\<lparr>posted := posted s @
      map (\<lambda>c. (url, \<lparr>jsonrpc = ''2.0'', id' = Some wid, method = fst c,
                       params = (if snd c = JUndefined then JObj [] else snd c)\<rparr>)) (callsOf evs)\<rparr>"
    by (rule initialized_run) (simp_all add: s assms)
  then have "posted (rpcRun evs s) = map (\<lambda>c. (url, \<lparr>jsonrpc = ''2.0'', id' = Some wid, method = fst c,
                       params = (if snd c = JUndefined then JObj [] else snd c)\<rparr>)) (cs @ callsOf evs)"
    by (simp add: s)
  moreover have "rpcRun (rpcCalls cs @ [RpcServerUrlResult 0 (Inr url), RpcWindowIdResult 0 (Inr wid)] @ evs) lazyClient
      = rpcRun evs s"
    unfolding s_def by (simp only: rpcRun_append append_assoc [symmetric])
  ultimately show ?thesis by simp
qed

lemma unset_failed_step:
  assumes "client s = \<lparr>endpoint = ep, endpointPromise = Some 0, clientWindowId = None\<rparr>" "unset ep"
    "rpcPromises s = [Rejected e]" "initializing s = []" "calling s = []"
  shows "rpcStep ev s = s\<lparr>refused := refused s @ map (\<lambda>c. (c, e)) (callsOf [ev])\<rparr>"
proof (cases ev)
  case (RpcCall m ps)
  from assms have "ensureEndpointInitialized s = (Some 0, s)"
    by (simp add: ensureEndpointInitialized_def)
  with assms RpcCall show ?thesis
    by (simp add: rpcSettle_def resumeCall_def rpcPromiseState_def)
next
  case (RpcServerUrlResult p r)
  with assms show ?thesis by simp
next
  case (RpcWindowIdResult p r)
  with assms show ?thesis by simp
qed

lemma unset_failed_run:
  assumes "client s = \<lparr>endpoint = ep, endpointPromise = Some 0, clientWindowId = None\<rparr>" "unset ep"
    "rpcPromises s = [Rejected e]" "initializing s = []" "calling s = []"
  shows "rpcRun evs s = s\<lparr>refused := refused s @ map (\<lambda>c. (c, e)) (callsOf evs)\<rparr>"
  using assms unfolding rpcRun_def
proof (induction evs arbitrary: s)
  case Nil
  show ?case by simp
next
  case (Cons ev evs)
  let ?s1 = "s\<lparr>refused := refused s @ map (\<lambda>c. (c, e)) (callsOf [ev])\<rparr>"
  from Cons.prems have 1: "rpcStep ev s = ?s1" by (rule unset_failed_step)
  from Cons.prems have "fold rpcStep evs ?s1 = ?s1\<lparr>refused := refused ?s1 @ map (\<lambda>c. (c, e)) (callsOf evs)\<rparr>"
    by (intro Cons.IH) simp_all
  with 1 callsOf_append [of "[ev]" evs] show ?case by (simp del: rpcStep.simps)
qed

lemma rejected_shape:
  assumes inv: "rpcInv s" and p: "endpointPromise (client s) = Some p"
    and r: "rpcPromiseState s p = Rejected e"
  shows "p = 0 \<and> client s = \<lparr>endpoint = endpoint (client s), endpointPromise = Some 0, clientWindowId = None\<rparr>
     \<and> rpcPromises s = [Rejected e] \<and> initializing s = [] \<and> calling s = []
     \<and> serverUrlCalls s = 1
     \<and> (windowIdCalls s = 0 \<longrightarrow> endpoint (client s) = None)"
proof -
  from inv have sh: "rpcShape s" and co: "callingOk s" by (simp_all add: rpcInv_def)
  from sh p have p0: "p = 0" and l: "length (rpcPromises s) = 1" by (simp_all add: rpcShape_def)
  with r have r0: "rpcPromises s ! 0 = Rejected e" by (simp add: rpcPromiseState_def)
  with l have ps: "rpcPromises s = [Rejected e]" by (rule nth_singleton)
  from co r p0 have c: "calling s = []" by (cases "calling s") (auto simp: callingOk_def)
  from sh p r0 p0 ps c show ?thesis by (cases "client s") (auto simp: rpcShape_def)
qed

lemma rpc_failure_final:
  assumes p: "endpointPromise (client (rpcRun evs lazyClient)) = Some p"
    and r: "rpcPromiseState (rpcRun evs lazyClient) p = Rejected e"
  shows "serverUrlCalls (rpcRun (evs @ evs') lazyClient) = 1
     \<and> windowIdCalls (rpcRun (evs @ evs') lazyClient) = windowIdCalls (rpcRun evs lazyClient)
     \<and> endpoint (client (rpcRun (evs @ evs') lazyClient)) = endpoint (client (rpcRun evs lazyClient))
     \<and> endpointPromise (client (rpcRun (evs @ evs') lazyClient)) = Some p
     \<and> rpcPromiseState (rpcRun (evs @ evs') lazyClient) p = Rejected e
     \<and> (windowIdCalls (rpcRun evs lazyClient) = 0 \<longrightarrow> endpoint (client (rpcRun evs lazyClient)) = None)
     \<and> (unset (endpoint (client (rpcRun evs lazyClient))) \<longrightarrow>
          rpcRun (evs @ evs') lazyClient =
            (rpcRun evs lazyClient)\<lparr>refused := refused (rpcRun evs lazyClient)
                                          @ map (\<lambda>c. (c, e)) (callsOf evs')\<rparr>)
     \<and> (\<forall>url. endpoint (client (rpcRun evs lazyClient)) = Some url \<and> url \<noteq> [] \<longrightarrow>
          rpcRun (evs @ evs') lazyClient =
            (rpcRun evs lazyClient)\<lparr>posted := posted (rpcRun evs lazyClient) @
               map (\<lambda>c. (url, \<lparr>jsonrpc = ''2.0'', id' = None, method = fst c,
                                params = (if snd c = JUndefined then JObj [] else snd c)\<rparr>))
                 (callsOf evs')\<rparr>)"
proof -
  define s where "s = rpcRun evs lazyClient"
  have a: "rpcRun (evs @ evs') lazyClient = rpcRun evs' s" by (simp add: s_def rpcRun_append)
  have "rpcInv s" unfolding s_def by (rule rpcInv_run) (rule rpcInv_lazyClient)
  from rejected_shape [OF this p [folded s_def] r [folded s_def]]
  have p0: "p = 0"
    and c: "client s = \<lparr>endpoint = endpoint (client s), endpointPromise = Some 0, clientWindowId = None\<rparr>"
    and ps: "rpcPromises s = [Rejected e]" and i: "initializing s = []" and ca: "calling s = []"
    and n: "serverUrlCalls s = 1" and w: "windowIdCalls s = 0 \<longrightarrow> endpoint (client s) = None"
    by blast+
  have u: "rpcRun evs' s = s\<lparr>refused := refused s @ map (\<lambda>c. (c, e)) (callsOf evs')\<rparr>"
    if "unset (endpoint (client s))"
    using c that ps i ca by (rule unset_failed_run)
  have v: "rpcRun evs' s = s\<lparr>posted := posted s @
               map (\<lambda>c. (url, \<lparr>jsonrpc = ''2.0'', id' = None, method = fst c,
                                params = (if snd c = JUndefined then JObj [] else snd c)\<rparr>))
                 (callsOf evs')\<rparr>"
    if "endpoint (client s) = Some url" "url \<noteq> []" for url
    using c that i by (intro session_failed_run) simp_all
  have k: "serverUrlCalls (rpcRun evs' s) = 1
     \<and> windowIdCalls (rpcRun evs' s) = windowIdCalls s
     \<and> endpoint (client (rpcRun evs' s)) = endpoint (client s)
     \<and> endpointPromise (client (rpcRun evs' s)) = Some p
     \<and> rpcPromiseState (rpcRun evs' s) p = Rejected e"
  proof (cases "unset (endpoint (client s))")
    case True
    from u [OF True] n p ps p0 show ?thesis
      by (simp add: s_def rpcPromiseState_def)
  next
    case False
    then obtain url where "endpoint (client s) = Some url" "url \<noteq> []"
      by (cases "endpoint (client s)") (auto simp: unset_def)
    from v [OF this] n p ps p0 show ?thesis
      by (simp add: s_def rpcPromiseState_def)
  qed
  from k w u v show ?thesis unfolding a s_def [symmetric] by blast
qed

lemma fetch_serverUrl_failure_final:
  assumes p: "serverUrlPromise (fetchRun evs fetchModule) = Some p"
    and r: "promiseState (fetchRun evs fetchModule) p = Rejected e"
  shows "serverUrl (fetchRun (evs @ evs') fetchModule) = None
     \<and> serverUrlPromise (fetchRun (evs @ evs') fetchModule) = Some p
     \<and> promiseState (fetchRun (evs @ evs') fetchModule) p = Rejected e
     \<and> getServerUrlCalls (fetchRun (evs @ evs') fetchModule) = 1
     \<and> suspended (fetchRun (evs @ evs') fetchModule) = []
     \<and> requests (fetchRun (evs @ evs') fetchModule) = []
     \<and> failures (fetchRun (evs @ evs' @ [Fetch u opts]) fetchModule)
         = failures (fetchRun (evs @ evs') fetchModule) @ [(u, e)]
     \<and> requests (fetchRun (evs @ evs' @ [Fetch u opts]) fetchModule) = []"
proof -
  define s where "s = fetchRun (evs @ evs') fetchModule"
  have i0: "fetchInv (fetchRun evs fetchModule)" by (rule fetchInv_run) (rule fetchInv_fetchModule)
  have i: "fetchInv s" unfolding s_def by (rule fetchInv_run) (rule fetchInv_fetchModule)
  from serverUrl_failed_run [OF i0 p r, of evs']
  have p': "serverUrlPromise s = Some p" and r': "promiseState s p = Rejected e"
    by (simp_all add: s_def fetchRun_append)
  from i p' r' have v: "serverUrl s = None" and n: "getServerUrlCalls s = 1"
    by (auto simp: fetchInv_def cacheInv_def promiseState_Rejected)
  from requestsUseBase_run [of "evs @ evs'"] v have q: "requests s = []"
    by (cases "requests s") (auto simp: requestsUseBase_def s_def)
  from i p' r' have su: "suspended s = []" by (intro failed_no_suspended [of s p e]) simp_all
  have st: "fetchRun (evs @ evs' @ [Fetch u opts]) fetchModule = fetchStep (Fetch u opts) s"
    by (simp add: s_def fetchRun_def del: fetchStep.simps)
  from fetch_after_serverUrl_failed [OF i p' r', of u opts] q
  have "failures (fetchStep (Fetch u opts) s) = failures s @ [(u, e)]"
    "requests (fetchStep (Fetch u opts) s) = []"
    by simp_all
  with v p' r' n su q show ?thesis unfolding st s_def [symmetric] by simp
qed

lemma fetch_windowId_failure_final:
  assumes p: "windowIdPromise (fetchRun evs fetchModule) = Some p"
    and r: "promiseState (fetchRun evs fetchModule) p = Rejected e"
  shows "windowId (fetchRun (evs @ evs') fetchModule) = None
     \<and> windowIdPromise (fetchRun (evs @ evs') fetchModule) = Some p
     \<and> promiseState (fetchRun (evs @ evs') fetchModule) p = Rejected e
     \<and> getWindowIdCalls (fetchRun (evs @ evs') fetchModule) = 1
     \<and> suspended (fetchRun (evs @ evs') fetchModule) = []
     \<and> requests (fetchRun (evs @ evs') fetchModule) = []
     \<and> (\<exists>e'. failures (fetchRun (evs @ evs' @ [Fetch u opts]) fetchModule)
         = failures (fetchRun (evs @ evs') fetchModule) @ [(u, e')])
     \<and> requests (fetchRun (evs @ evs' @ [Fetch u opts]) fetchModule) = []"
proof -
  define s where "s = fetchRun (evs @ evs') fetchModule"
  have i0: "fetchInv (fetchRun evs fetchModule)" by (rule fetchInv_run) (rule fetchInv_fetchModule)
  have i: "fetchInv s" unfolding s_def by (rule fetchInv_run) (rule fetchInv_fetchModule)
  from windowId_failed_run [OF i0 p r, of evs']
  have p': "windowIdPromise s = Some p" and r': "promiseState s p = Rejected e"
    by (simp_all add: s_def fetchRun_append)
  from i p' r' have v: "windowId s = None" and n: "getWindowIdCalls s = 1"
    by (auto simp: fetchInv_def cacheInv_def promiseState_Rejected)
  from i v have q: "requests s = []"
    by (cases "requests s") (auto simp: fetchInv_def)
  from i p' r' have su: "suspended s = []" by (intro failed_no_suspended [of s p e]) simp_all
  have st: "fetchRun (evs @ evs' @ [Fetch u opts]) fetchModule = fetchStep (Fetch u opts) s"
    by (simp add: s_def fetchRun_def del: fetchStep.simps)
  from fetch_after_windowId_failed [OF i p' r', of u opts] q
  have "\<exists>e'. failures (fetchStep (Fetch u opts) s) = failures s @ [(u, e')]"
    "requests (fetchStep (Fetch u opts) s) = []"
    by simp_all
  with v p' r' n su q show ?thesis unfolding st s_def [symmetric] by simp
qed

lemma failed_fetch_example:
  "fetchRun [Fetch ''/a'' [], ServerUrlResult 0 (Inl ''Error: boom'')] fetchModule
     = (fetchWaiting [(''/a'', [])])
         \<lparr>promises := [Rejected (Error ''Failed to get server URL: Error: boom''), Pending],
          serverUrlLookups := [], suspended := [],
          failures := [(''/a'', Error ''Failed to get server URL: Error: boom'')]\<rparr>"
proof -
  have "fetchRun (fetchCalls [(''/a'', [])] @ [ServerUrlResult 0 (Inl ''Error: boom'')]) fetchModule
     = (fetchWaiting [(''/a'', [])])
         \<lparr>promises := [Rejected (Error ''Failed to get server URL: Error: boom''), Pending],
          serverUrlLookups := [], suspended := [],
          failures := [(''/a'', Error ''Failed to get server URL: Error: boom'')]\<rparr>"
    by (subst concurrent_fetches_failed) simp_all
  then show ?thesis by (simp only: fetchCalls_def list.map append.simps fst_conv snd_conv)
qed

lemma failed_rpc_example:
  "rpcRun [RpcCall ''ping'' JUndefined, RpcServerUrlResult 0 (Inl ''Error: boom'')] lazyClient
     = (rpcWaiting [(''ping'', JUndefined)])
         \<lparr>rpcPromises := [Rejected (Error ''Failed to get RPC endpoint: Error: boom'')],
          initializing := [], calling := [],
          refused := [((''ping'', JUndefined), Error ''Failed to get RPC endpoint: Error: boom'')]\<rparr>"
proof -
  have "rpcRun (rpcCalls [(''ping'', JUndefined)] @ [RpcServerUrlResult 0 (Inl ''Error: boom'')]) lazyClient
     = (rpcWaiting [(''ping'', JUndefined)])
         \<lparr>rpcPromises := [Rejected (Error ''Failed to get RPC endpoint: Error: boom'')],
          initializing := [], calling := [],
          refused := [((''ping'', JUndefined), Error ''Failed to get RPC endpoint: Error: boom'')]\<rparr>"
    by (subst concurrent_calls_failed) simp_all
  then show ?thesis by (simp only: rpcCalls_def list.map append.simps fst_conv snd_conv)
qed

lemma failed_fetch_facts:
  "serverUrlPromise (fetchRun [Fetch ''/a'' [], ServerUrlResult 0 (Inl ''Error: boom'')] fetchModule) = Some 0"
  "promiseState (fetchRun [Fetch ''/a'' [], ServerUrlResult 0 (Inl ''Error: boom'')] fetchModule) 0
     = Rejected (Error ''Failed to get server URL: Error: boom'')"
  "serverUrl (fetchRun [Fetch ''/a'' [], ServerUrlResult 0 (Inl ''Error: boom'')] fetchModule) = None"
  "failures (fetchRun [Fetch ''/a'' [], ServerUrlResult 0 (Inl ''Error: boom'')] fetchModule)
     = [(''/a'', Error ''Failed to get server URL: Error: boom'')]"
  by (simp_all add: failed_fetch_example fetchWaiting_def promiseState_def)

lemma failed_rpc_facts:
  "endpointPromise (client (rpcRun [RpcCall ''ping'' JUndefined, RpcServerUrlResult 0 (Inl ''Error: boom'')]
      lazyClient)) = Some 0"
  "rpcPromiseState (rpcRun [RpcCall ''ping'' JUndefined, RpcServerUrlResult 0 (Inl ''Error: boom'')] lazyClient) 0
     = Rejected (Error ''Failed to get RPC endpoint: Error: boom'')"
  "endpoint (client (rpcRun [RpcCall ''ping'' JUndefined, RpcServerUrlResult 0 (Inl ''Error: boom'')]
      lazyClient)) = None"
  "refused (rpcRun [RpcCall ''ping'' JUndefined, RpcServerUrlResult 0 (Inl ''Error: boom'')] lazyClient)
     = [((''ping'', JUndefined), Error ''Failed to get RPC endpoint: Error: boom'')]"
  by (simp_all add: failed_rpc_example rpcWaiting_def rpcPromiseState_def)

lemma call_with_endpoint:
  assumes "endpoint (client s) = Some url" "url \<noteq> []"
  shows "rpcStep (RpcCall m ps) s =
     s\<lparr>posted := posted s @
          [(url, \<lparr>jsonrpc = ''2.0'', id' = clientWindowId (client s), method = m,
                  params = (if ps = JUndefined then JObj [] else ps)\<rparr>)]\<rparr>"
proof -
  from assms have "ensureEndpointInitialized s = (None, s)"
    by (simp add: ensureEndpointInitialized_def unset_def)
  with assms show ?thesis by (simp add: postRequest_def buildRequest_def)
qed

lemma clientWindowId_step:
  "clientWindowId (client (rpcStep ev s)) = Some w \<Longrightarrow>
     clientWindowId (client s) = Some w \<or> (\<exists>p. ev = RpcWindowIdResult p (Inr w))"
  by (cases ev)
    (auto simp: ensureEndpointInitialized_def initializeEndpoint_def endpointArrived_def
      sessionArrived_def Let_def split: option.splits sum.splits if_splits)

lemma clientWindowId_origin:
  "clientWindowId (client (rpcRun evs lazyClient)) = Some w \<Longrightarrow> \<exists>p. RpcWindowIdResult p (Inr w) \<in> set evs"
proof (induction evs arbitrary: w rule: rev_induct)
  case Nil
  then show ?case by (simp add: rpcRun_def lazyClient_def)
next
  case (snoc ev evs)
  from snoc.prems have "clientWindowId (client (rpcStep ev (rpcRun evs lazyClient))) = Some w"
    by (simp add: rpcRun_def)
  from clientWindowId_step [OF this] snoc.IH [of w] show ?case by auto
qed

lemma initialized_call:
  assumes w: "clientWindowId (client (rpcRun evs lazyClient)) = Some wid"
  shows "\<exists>url. endpoint (client (rpcRun evs lazyClient)) = Some url
     \<and> (url \<noteq> [] \<longrightarrow>
          rpcStep (RpcCall m ps) (rpcRun evs lazyClient) =
            (rpcRun evs lazyClient)\<lparr>posted := posted (rpcRun evs lazyClient) @
               [(url, \<lparr>jsonrpc = ''2.0'', id' = Some wid, method = m,
                       params = (if ps = JUndefined then JObj [] else ps)\<rparr>)]\<rparr>)"
proof -
  define s where "s = rpcRun evs lazyClient"
  have "rpcInv s" unfolding s_def by (rule rpcInv_run) (rule rpcInv_lazyClient)
  with w [folded s_def] obtain url where u: "endpoint (client s) = Some url"
    by (auto simp: rpcInv_def rpcShape_def split: option.splits promise_state.splits)
  from call_with_endpoint [OF u, of m ps] w [folded s_def] u show ?thesis
    unfolding s_def [symmetric] by auto
qed

lemma session_resumes_calls:
  assumes i: "map_of (initializing (rpcRun evs lazyClient)) p = Some (Some url)" and u: "url \<noteq> []"
  shows "rpcStep (RpcWindowIdResult p (Inr wid)) (rpcRun evs lazyClient) =
     (rpcRun evs lazyClient)
       \<lparr>client := \<lparr>endpoint = Some url, endpointPromise = Some 0, clientWindowId = Some wid\<rparr>,
        rpcPromises := [Fulfilled url], initializing := [], calling := [],
        posted := posted (rpcRun evs lazyClient) @
          map (\<lambda>c. (url, \<lparr>jsonrpc = ''2.0'', id' = Some wid, method = fst (snd c),
                           params = (if snd (snd c) = JUndefined then JObj [] else snd (snd c))\<rparr>))
            (calling (rpcRun evs lazyClient))\<rparr>"
proof -
  define s where "s = rpcRun evs lazyClient"
  have inv: "rpcInv s" unfolding s_def by (rule rpcInv_run) (rule rpcInv_lazyClient)
  then have sh: "rpcShape s" and co: "callingOk s" by (simp_all add: rpcInv_def)
  from rpcShape_stage2 [OF sh i [folded s_def]]
  have p0: "p = 0"
    and c: "client s = \<lparr>endpoint = Some url, endpointPromise = Some 0, clientWindowId = None\<rparr>"
    and ps: "rpcPromises s = [Pending]" and ini: "initializing s = [(0, Some url)]"
    by blast+
  define s1 where "s1 = sessionArrived 0 url (Inr wid) s"
  have s1: "s1 = s\<lparr>client := \<lparr>endpoint = Some url, endpointPromise = Some 0, clientWindowId = Some wid\<rparr>,
        rpcPromises := [Fulfilled url], initializing := []\<rparr>"
    by (simp add: s1_def sessionArrived_def c ps ini)
  from co have "\<forall>c \<in> set (calling s). fst c = 0" by (simp add: callingOk_def)
  then have f: "\<forall>c \<in> set (calling s1). \<exists>v. rpcPromiseState (s1\<lparr>calling := []\<rparr>) (fst c) = Fulfilled v"
    by (simp add: s1 rpcPromiseState_def)
  have e: "endpoint (client (s1\<lparr>calling := []\<rparr>)) = Some url" by (simp add: s1)
  from fold_resumeCall_fulfilled [OF f e u]
  have "rpcSettle s1 = s\<lparr>client := \<lparr>endpoint = Some url, endpointPromise = Some 0, clientWindowId = Some wid\<rparr>,
        rpcPromises := [Fulfilled url], initializing := [], calling := [],
        posted := posted s @
          map (\<lambda>c. (url, \<lparr>jsonrpc = ''2.0'', id' = Some wid, method = fst (snd c),
                           params = (if snd (snd c) = JUndefined then JObj [] else snd (snd c))\<rparr>))
            (calling s)\<rparr>"
    by (simp add: rpcSettle_def) (simp add: s1 buildRequest_def)
  with i [folded s_def] p0 show ?thesis
    unfolding s_def [symmetric] by (simp add: s1_def)
qed

lemma early_call_waits:
  assumes n: "endpoint (client (rpcRun evs lazyClient)) = None"
    and r: "\<forall>e. rpcPromiseState (rpcRun evs lazyClient) 0 \<noteq> Rejected e"
  shows "calling (rpcStep (RpcCall m ps) (rpcRun evs lazyClient))
       = calling (rpcRun evs lazyClient) @ [(0, m, ps)]
     \<and> posted (rpcStep (RpcCall m ps) (rpcRun evs lazyClient)) = posted (rpcRun evs lazyClient)
     \<and> refused (rpcStep (RpcCall m ps) (rpcRun evs lazyClient)) = refused (rpcRun evs lazyClient)"
proof -
  define s where "s = rpcRun evs lazyClient"
  have inv: "rpcInv s" unfolding s_def by (rule rpcInv_run) (rule rpcInv_lazyClient)
  then have sh: "rpcShape s" and co: "callingOk s" by (simp_all add: rpcInv_def)
  have "calling (rpcStep (RpcCall m ps) s) = calling s @ [(0, m, ps)]
     \<and> posted (rpcStep (RpcCall m ps) s) = posted s
     \<and> refused (rpcStep (RpcCall m ps) s) = refused s"
  proof (cases "endpointPromise (client s)")
    case None
    with co have ca: "calling s = []" by (cases "calling s") (auto simp: callingOk_def)
    from sh None have ps: "rpcPromises s = []" by (simp add: rpcShape_def)
    define s1 where "s1 = s\<lparr>rpcPromises := [Pending], initializing := initializing s @ [(0, None)],
        serverUrlCalls := serverUrlCalls s + 1,
        client := (client s)\<lparr>endpointPromise := Some 0\<rparr>, calling := [(0, m, ps)]\<rparr>"
    have "rpcSettle s1 = s1"
      by (rule rpcSettle_pending) (simp add: s1_def rpcPromiseState_def)
    moreover from None n [folded s_def] ps ca
    have "rpcStep (RpcCall m ps) s = rpcSettle s1"
      by (simp add: ensureEndpointInitialized_def initializeEndpoint_def unset_def Let_def s1_def)
    ultimately show ?thesis using ca by (simp add: s1_def)
  next
    case (Some p)
    with sh have p0: "p = 0" and l: "length (rpcPromises s) = 1" by (simp_all add: rpcShape_def)
    from sh Some n [folded s_def] r [folded s_def] l have pe: "rpcPromises s ! 0 = Pending"
      by (cases "rpcPromises s ! 0") (auto simp: rpcShape_def rpcPromiseState_def)
    define s1 where "s1 = s\<lparr>calling := calling s @ [(0, m, ps)]\<rparr>"
    from co have "\<forall>c \<in> set (calling s). fst c = 0" by (simp add: callingOk_def)
    with pe l have "rpcSettle s1 = s1"
      by (intro rpcSettle_pending) (auto simp: s1_def rpcPromiseState_def)
    moreover from Some p0 n [folded s_def]
    have "rpcStep (RpcCall m ps) s = rpcSettle s1"
      by (simp add: ensureEndpointInitialized_def unset_def s1_def)
    ultimately show ?thesis by (simp add: s1_def)
  qed
  then show ?thesis unfolding s_def .
qed

lemma finishCall_fails:
  "d \<noteq> JsonNull \<Longrightarrow> (\<exists>e. finishCall conv (Parsed d) = Inl e) \<longleftrightarrow> jsonTruthy (member d ''error'')"
  by (auto simp: finishCall_def split: option.splits sum.splits)

lemma finishCall_result:
  "d \<noteq> JsonNull \<Longrightarrow> \<not> jsonTruthy (member d ''error'') \<Longrightarrow>
     finishCall conv (Parsed d) = Inr (member d ''result'')"
  by (auto simp: finishCall_def split: option.splits)

lemma finishCall_error:
  assumes "member d ''error'' = Some (JsonObj ps)"
    "map_of ps ''message'' = Some (JsonStr msg)" "map_of ps ''code'' = Some (JsonNum c)"
    "of_int \<lfloor>c\<rfloor> = c" "\<bar>c\<bar> \<le> 2 ^ 53"
  shows "finishCall conv (Parsed d)
     = Inl (Error (''RPC Error: '' @ msg @ '' (Code: '' @ showInt \<lfloor>c\<rfloor> @ '')''))"
proof -
  from assms(1) have "d \<noteq> JsonNull" by (auto simp: member_def)
  with assms show ?thesis by (simp add: finishCall_def member_def templateText_def)
qed

lemma showInt_example: "showInt (- 32601) = ''-32601''"
  by (simp add: showInt_def showNat.simps)

lemma method_not_found:
  "finishCall conv (Parsed (JsonObj [(''jsonrpc'', JsonStr ''2.0''),
      (''error'', JsonObj [(''code'', JsonNum (- 32601)), (''message'', JsonStr ''Method not found'')]),
      (''id'', JsonStr ''w1'')]))
   = Inl (Error ''RPC Error: Method not found (Code: -32601)'')"
proof -
  have "finishCall conv (Parsed (JsonObj [(''jsonrpc'', JsonStr ''2.0''),
      (''error'', JsonObj [(''code'', JsonNum (- 32601)), (''message'', JsonStr ''Method not found'')]),
      (''id'', JsonStr ''w1'')]))
   = Inl (Error (''RPC Error: '' @ ''Method not found'' @ '' (Code: '' @ showInt \<lfloor>- 32601 :: rat\<rfloor> @ '')''))"
    by (rule finishCall_error [where ps = "[(''code'', JsonNum (- 32601)), (''message'', JsonStr ''Method not found'')]"])
      (simp_all add: member_def)
  then show ?thesis by (simp add: showInt_example)
qed

lemma endpoint_example:
  "rpcRun [RpcCall ''ping'' JUndefined, RpcServerUrlResult 0 (Inr ''http://x/rpc'')] lazyClient
     = (rpcWaiting [(''ping'', JUndefined)])
         \<lparr>client := \<lparr>endpoint = Some ''http://x/rpc'', endpointPromise = Some 0, clientWindowId = None\<rparr>,
          initializing := [(0, Some ''http://x/rpc'')], windowIdCalls := 1\<rparr>"
proof -
  have "rpcRun (rpcCalls [(''ping'', JUndefined)] @ [RpcServerUrlResult 0 (Inr ''http://x/rpc'')]) lazyClient
     = (rpcWaiting [(''ping'', JUndefined)])
         \<lparr>client := \<lparr>endpoint = Some ''http://x/rpc'', endpointPromise = Some 0, clientWindowId = None\<rparr>,
          initializing := [(0, Some ''http://x/rpc'')], windowIdCalls := 1\<rparr>"
    by (simp only: rpcRun_snoc endpoint_arrives concurrent_calls [of "[(''ping'', JUndefined)]", simplified])
  then show ?thesis by (simp only: rpcCalls_def list.map append.simps fst_conv snd_conv)
qed

lemma finishCall_error_number:
  assumes "member d ''error'' = Some (JsonObj ps)"
    "map_of ps ''message'' = Some (JsonStr msg)" "map_of ps ''code'' = Some (JsonNum c)"
    "conv (JsonNum c) = Inr t"
  shows "finishCall conv (Parsed d)
     = Inl (Error (''RPC Error: '' @ msg @ '' (Code: ''
                   @ (if of_int \<lfloor>c\<rfloor> = c \<and> \<bar>c\<bar> \<le> 2 ^ 53 then showInt \<lfloor>c\<rfloor> else t) @ '')''))"
proof -
  from assms(1) have "d \<noteq> JsonNull" by (auto simp: member_def)
  with assms show ?thesis by (simp add: finishCall_def member_def templateText_def)
qed

lemma endpoint_keeps_waiting:
  assumes i: "(p, None) \<in> set (initializing (rpcRun evs lazyClient))"
  shows "calling (rpcStep (RpcServerUrlResult p (Inr url)) (rpcRun evs lazyClient))
       = calling (rpcRun evs lazyClient)
     \<and> posted (rpcStep (RpcServerUrlResult p (Inr url)) (rpcRun evs lazyClient))
       = posted (rpcRun evs lazyClient)
     \<and> refused (rpcStep (RpcServerUrlResult p (Inr url)) (rpcRun evs lazyClient))
       = refused (rpcRun evs lazyClient)"
proof -
  define s where "s = rpcRun evs lazyClient"
  have inv: "rpcInv s" unfolding s_def by (rule rpcInv_run) (rule rpcInv_lazyClient)
  then have sh: "rpcShape s" and co: "callingOk s" by (simp_all add: rpcInv_def)
  from rpcShape_stage1 [OF sh i [folded s_def]]
  have p0: "p = 0" and ps: "rpcPromises s = [Pending]" by blast+
  define s1 where "s1 = endpointArrived 0 (Inr url) s"
  have s1: "rpcPromises s1 = [Pending]" "calling s1 = calling s" "posted s1 = posted s"
    "refused s1 = refused s"
    by (simp_all add: s1_def endpointArrived_def ps)
  from co have "\<forall>c \<in> set (calling s). fst c = 0" by (simp add: callingOk_def)
  with s1 have "rpcSettle s1 = s1"
    by (intro rpcSettle_pending) (simp add: rpcPromiseState_def)
  with i [folded s_def] p0 s1 show ?thesis
    unfolding s_def [symmetric] by (simp add: s1_def)
qed

section \<open>Claims about the readiness gate\<close>

text \<open>
  Claim C9. \<^verbatim>\<open>setReady()\<close> is idempotent. On a page whose manager is already ready it changes
  nothing. On any page, calling it twice, or any number of times in a row, leaves the same
  page as calling it once, also when the continuations of the suspended calls are run after
  each call. One call sets the ready flag; on a manager that was not ready it also clears the
  two timer identifiers, removes their timers from the window, and fulfils the ready promise
  if that was pending.
\<close>

theorem C9_setReady_idempotent:
  "(ready (manager s) \<longrightarrow> setReady s = s)
   \<and> setReady (setReady s) = setReady s
   \<and> (setReady ^^ Suc n) s = setReady s
   \<and> (step CallSetReady ^^ Suc n) s = step CallSetReady s
   \<and> ready (manager (setReady s))
   \<and> (\<not> ready (manager s) \<longrightarrow>
        pollingInterval (manager (setReady s)) = None
        \<and> pollingTimeout (manager (setReady s)) = None
        \<and> (\<forall>w. global s = Some w \<longrightarrow>
              (\<exists>w'. global (setReady s) = Some w' \<and>
                 timers w' = filter (\<lambda>t. Some (fst t) \<noteq> pollingInterval (manager s)
                                      \<and> Some (fst t) \<noteq> pollingTimeout (manager s)) (timers w)))
        \<and> (readyPromise (manager s) = Pending \<longrightarrow>
              readyPromise (manager (setReady s)) = Fulfilled ()))"
  using setReady_ready [of s] setReady_idem [of s] setReady_funpow [of n s]
    step_CallSetReady_funpow [of n s] polling_setReady [of s] timers_setReady [of s]
  by (simp add: readyPromise_setReady)

theorem C9_setReady_idempotent_witness:
  "\<not> ready (manager pollingPage)
   \<and> readyPromise (manager pollingPage) = Pending
   \<and> global pollingPage \<noteq> None
   \<and> setReady (setReady pollingPage) = setReady pollingPage
   \<and> (setReady ^^ 3) pollingPage = setReady pollingPage
   \<and> ready (manager (setReady pollingPage))
   \<and> pollingInterval (manager (setReady pollingPage)) = None
   \<and> pollingTimeout (manager (setReady pollingPage)) = None
   \<and> readyPromise (manager (setReady pollingPage)) = Fulfilled ()
   \<and> setReady (setReady (setReady pollingPage)) = setReady pollingPage"
proof -
  have a: "\<not> ready (manager pollingPage)" "readyPromise (manager pollingPage) = Pending"
    "global pollingPage \<noteq> None"
    by (simp_all add: pollingPage_eq)
  have b: "ready (manager (setReady pollingPage))" by simp
  from a b C9_setReady_idempotent [of pollingPage 2] C9_setReady_idempotent [of "setReady pollingPage" 0]
  show ?thesis by (simp add: numeral_3_eq_3)
qed

text \<open>
  Claim C1. In every page reached from a freshly constructed manager by any sequence of
  events, each host function was invoked at a moment when \<^verbatim>\<open>isReady()\<close> was true. For an
  operation of \<^verbatim>\<open>BaseAPI\<close> or a \<^verbatim>\<open>callIPC\<close> issued in such a page: while the manager is
  not ready the call invokes nothing, and with the ready promise pending it is suspended;
  the suspended calls run, in order, when \<^verbatim>\<open>setReady\<close> fulfils the promise, at which point
  \<^verbatim>\<open>isReady()\<close> is true; a rejected promise rejects them without any invocation; and a call
  issued when \<^verbatim>\<open>isReady()\<close> is true runs its function at once, without being suspended.
\<close>

theorem C1_no_premature_calls:
  "(\<forall>e \<in> set (invoked (run evs (newPyloidReadyManager g ci td))). fst e)
   \<and> (s = run evs (newPyloidReadyManager g ci td) \<longrightarrow>
        (\<not> isReady s \<longrightarrow> invoked (step (Call opn) s) = invoked s)
      \<and> (global s \<noteq> None \<and> \<not> isReady s \<and> whenReady s = Pending \<longrightarrow>
           step (Call opn) s = s\<lparr>waiting := waiting s @ [opn]\<rparr>)
      \<and> (\<not> isReady s \<and> whenReady s = Pending \<longrightarrow>
           step CallSetReady s = fold runThunk (waiting s) ((setReady s)\<lparr>waiting := []\<rparr>)
           \<and> isReady ((setReady s)\<lparr>waiting := []\<rparr>))
      \<and> (\<forall>e. whenReady s = Rejected e \<longrightarrow>
           invoked (resume s) = invoked s \<and> waiting (resume s) = [])
      \<and> (global s \<noteq> None \<and> isReady s \<longrightarrow>
           step (Call opn) s = runThunk opn s
           \<and> waiting (step (Call opn) s) = waiting s
           \<and> (\<forall>c. thunk opn s = Inr c \<longrightarrow>
                 invoked (step (Call opn) s) = invoked s @ [(True, c)])))"
proof -
  have inv: "gate_inv (run evs (newPyloidReadyManager g ci td))"
    by (rule gate_inv_run) (rule gate_inv_new)
  then have safe: "\<forall>e \<in> set (invoked (run evs (newPyloidReadyManager g ci td))). fst e"
    by (simp add: gate_inv_def)
  have rest: "(\<not> isReady s \<longrightarrow> invoked (step (Call opn) s) = invoked s)
      \<and> (global s \<noteq> None \<and> \<not> isReady s \<and> whenReady s = Pending \<longrightarrow>
           step (Call opn) s = s\<lparr>waiting := waiting s @ [opn]\<rparr>)
      \<and> (\<not> isReady s \<and> whenReady s = Pending \<longrightarrow>
           step CallSetReady s = fold runThunk (waiting s) ((setReady s)\<lparr>waiting := []\<rparr>)
           \<and> isReady ((setReady s)\<lparr>waiting := []\<rparr>))
      \<and> (\<forall>e. whenReady s = Rejected e \<longrightarrow>
           invoked (resume s) = invoked s \<and> waiting (resume s) = [])
      \<and> (global s \<noteq> None \<and> isReady s \<longrightarrow>
           step (Call opn) s = runThunk opn s
           \<and> waiting (step (Call opn) s) = waiting s
           \<and> (\<forall>c. thunk opn s = Inr c \<longrightarrow>
                 invoked (step (Call opn) s) = invoked s @ [(True, c)]))"
    if "gate_inv s"
    using that ensureReady_not_ready [of s opn] ensureReady_pending [of s opn]
      step_CallSetReady_pending [of s] rejected_never_invoked [of s]
      ensureReady_ready [of s opn] invoked_runThunk [of opn s]
    by (simp del: step.simps(4) add: ensureReady_ready)
  from safe rest inv show ?thesis by blast
qed

theorem C1_no_premature_calls_witness:
  "invoked (run [Call (Api GetData), Inject exampleBridge, Fire 1, Call (Api (SetTitle ''Hello''))] pollingPage)
     = [(True, Invocation 1 []), (True, Invocation 2 [JStr ''Hello''])]
   \<and> \<not> isReady pollingPage
   \<and> invoked (step (Call (Api GetData)) pollingPage) = invoked pollingPage
   \<and> waiting (step (Call (Api GetData)) pollingPage) = [Api GetData]
   \<and> invoked (run [Call (Api GetData), Fire 2] pollingPage) = []
   \<and> rejected (run [Call (Api GetData), Fire 2] pollingPage)
       = [(Api GetData, Error ''Pyloid initialization timed out.'')]"
proof -
  let ?evs = "[Call (Api GetData), Inject exampleBridge, Fire 1, Call (Api (SetTitle ''Hello''))]"
  have 1: "invoked (run ?evs pollingPage) = [(True, Invocation 1 []), (True, Invocation 2 [JStr ''Hello''])]"
    by (simp add: run_def pollingPage_eq gate_eval exampleBridge_def)
  have 2: "\<not> isReady pollingPage" "global pollingPage \<noteq> None" "whenReady pollingPage = Pending"
    "waiting pollingPage = []"
    by (simp_all add: pollingPage_eq isReady_def whenReady_def)
  have 3: "invoked (run [Call (Api GetData), Fire 2] pollingPage) = []"
    "rejected (run [Call (Api GetData), Fire 2] pollingPage)
       = [(Api GetData, Error ''Pyloid initialization timed out.'')]"
    by (simp_all add: run_def pollingPage_eq gate_eval)
  have s: "pollingPage = run [] (newPyloidReadyManager (Some (initialWindow exampleRealm JUndefined JUndefined)) 20 10000)"
    by (simp add: pollingPage_def pyloidReadyManager_def run_def)
  from C1_no_premature_calls [of "[]" "Some (initialWindow exampleRealm JUndefined JUndefined)" 20 10000 pollingPage "Api GetData"]
    1 2 3 s
  show ?thesis by simp
qed

text \<open>
  Claim C2, as amended. Take a manager that started polling in a browser page, and let its
  timeout fire while the timeout is still armed (the bridge has not been detected). Then the
  ready promise is rejected with the timeout error and the manager is not ready; after any
  further events, calls of \<^verbatim>\<open>setReady()\<close> and injections of the bridge included,
  \<^verbatim>\<open>whenReady()\<close> is still rejected with that error; and as long as nobody calls
  \<^verbatim>\<open>setReady()\<close>, the manager stays not ready, whatever the host injects and whichever
  timer identifiers fire. A call of \<^verbatim>\<open>setReady()\<close> after the timeout does set the ready
  flag.
\<close>

theorem C2_timeout_terminal:
  assumes s: "s = run evs0 (newPyloidReadyManager (Some (initialWindow r p i)) ci td)"
    and t: "pollingTimeout (manager s) = Some t"
  shows "whenReady (step (Fire t) s) = Rejected (Error ''Pyloid initialization timed out.'')
         \<and> \<not> isReady (step (Fire t) s)
         \<and> whenReady (run evs (step (Fire t) s)) = Rejected (Error ''Pyloid initialization timed out.'')
         \<and> (CallSetReady \<notin> set evs \<longrightarrow> \<not> isReady (run evs (step (Fire t) s)))
         \<and> isReady (step CallSetReady (run evs (step (Fire t) s)))"
proof -
  have "known_timers (newPyloidReadyManager (Some (initialWindow r p i)) ci td)
      \<and> armed (newPyloidReadyManager (Some (initialWindow r p i)) ci td)"
    using inv_new [of "Some (r, p, i)" ci td] by simp
  with s have "known_timers s" "armed s" by (simp_all add: inv_run)
  from timeout_fires [OF this t]
  have 1: "readyPromise (manager (step (Fire t) s)) = Rejected (Error ''Pyloid initialization timed out.'')"
    and 2: "\<not> ready (manager (step (Fire t) s))" and 3: "idle (step (Fire t) s)"
    by blast+
  from 1 have 4: "readyPromise (manager (run evs (step (Fire t) s)))
      = Rejected (Error ''Pyloid initialization timed out.'')"
    by (simp add: readyPromise_settled_run)
  from 2 3 have 5: "CallSetReady \<notin> set evs \<longrightarrow> \<not> ready (manager (run evs (step (Fire t) s)))"
    by (simp add: idle_run)
  from 1 2 4 5 show ?thesis by (simp add: whenReady_def isReady_def)
qed

theorem C2_timeout_terminal_witness:
  "pollingTimeout (manager (run [Call (Api GetData)] pollingPage)) = Some 2
   \<and> whenReady (run [Inject exampleBridge, Fire 1, CallSetReady, Call (Api GetData)]
        (step (Fire 2) (run [Call (Api GetData)] pollingPage)))
       = Rejected (Error ''Pyloid initialization timed out.'')
   \<and> \<not> isReady (run [Inject exampleBridge, Fire 1, Call (Api GetData)]
        (step (Fire 2) (run [Call (Api GetData)] pollingPage)))"
proof -
  have t: "pollingTimeout (manager (run [Call (Api GetData)] pollingPage)) = Some 2"
    by (simp add: run_def pollingPage_eq gate_eval)
  have s: "run [Call (Api GetData)] pollingPage
      = run [Call (Api GetData)] (newPyloidReadyManager (Some (initialWindow exampleRealm JUndefined JUndefined)) 20 10000)"
    by (simp add: pollingPage_def pyloidReadyManager_def)
  from C2_timeout_terminal [OF s t, of "[Inject exampleBridge, Fire 1, CallSetReady, Call (Api GetData)]"]
    C2_timeout_terminal [OF s t, of "[Inject exampleBridge, Fire 1, Call (Api GetData)]"] t
  show ?thesis by simp
qed

text \<open>
  The claim as it was stated (no transition of the ready state to true after the timeout has
  fired, even if \<^verbatim>\<open>setReady()\<close> is invoked) fails: in the page below the timeout fires, the
  promise is rejected, and a call of \<^verbatim>\<open>setReady()\<close> makes \<^verbatim>\<open>isReady()\<close> true.
\<close>

theorem C2_counterexample:
  "whenReady (run [Fire 2] pollingPage) = Rejected (Error ''Pyloid initialization timed out.'')
   \<and> \<not> isReady (run [Fire 2] pollingPage)
   \<and> isReady (run [Fire 2, CallSetReady] pollingPage)"
  by (simp add: run_def pollingPage_eq gate_eval)

section \<open>Claims about the dynamic dispatcher\<close>

lemma readyPage_eq:
  "readyPage =
     \<lparr>global = Some \<lparr>PYLOID = exampleBridge, ipc = exampleIpc, timers = [], nextTimer = 1,
                     inherited = exampleRealm\<rparr>,
      manager = \<lparr>ready = True, readyPromise = Fulfilled (), pollingInterval = None,
                 pollingTimeout = None, checkInterval = 20, timeoutDuration = 10000\<rparr>,
      console = [''PyloidReadyManager: __PYLOID__ found immediately.'',
                 ''PyloidReadyManager: Pyloid is ready.''],
      waiting = [], invoked = [], rejected = []\<rparr>"
  by (simp add: readyPage_def pyloidReadyManager_def newPyloidReadyManager_def initialWindow_def
      exampleBridge_def gate_eval)

lemma ipc_examples:
  "callIPC_body inh exampleIpc ''window.setTitle'' [JStr ''Hello''] = Inr (Invocation 7 [JStr ''Hello''])"
  "typeof (inh (JObj [(''setTitle'', JFun 7 [])]) ''nonexistent'') \<noteq> ''function'' \<Longrightarrow>
     callIPC_body inh exampleIpc ''window.nonexistent'' args = Inl (notAFunction ''window.nonexistent'')"
  "typeof (inh exampleIpc ''app'') \<noteq> ''object'' \<Longrightarrow>
     callIPC_body inh exampleIpc ''app.window.setTitle'' args
       = Inl (notAnObject ''app.window.setTitle'' [''app'', ''window'', ''setTitle''] 1)"
  by (auto simp: callIPC_body_eq exampleIpc_def readProp_def typeof_function split: jsval.splits)

lemma primitive_receiver:
  "callIPC_body exampleRealm (JStr ''abc'') ''toUpperCase'' [] = Inr (Invocation 101 [])"
  "callIPC_body exampleRealm exampleIpc ''window.toString'' [] = Inr (Invocation 100 [])"
  "callIPC_body exampleRealm (JObj [(''name'', JStr ''abc'')]) ''name.toUpperCase'' []
     = Inr (Invocation 101 [])"
  by (simp_all add: callIPC_body_eq exampleIpc_def readProp_def exampleRealm_def)

lemma step_Call_Ipc_ready:
  "global s = Some w \<Longrightarrow> isReady s \<Longrightarrow>
     step (Call (Ipc path args)) s =
       (case callIPC_body (inherited w) (ipc w) path args of
          Inl e \<Rightarrow> s\<lparr>rejected := rejected s @ [(Ipc path args, e)]\<rparr>
        | Inr c \<Rightarrow> s\<lparr>invoked := invoked s @ [(True, c)]\<rparr>)"
  by (simp add: ensureReady_def runThunk_def thunk_def split: sum.splits)

text \<open>
  Claim C8, as amended. The function that \<^verbatim>\<open>callIPC\<close> runs behind the readiness gate
  walks the segments of the path from \<^verbatim>\<open>window.ipc\<close>, reading each segment as a property,
  own or inherited. It throws an error that names the path as soon as the value it is about
  to index on the way to the receiver (\<^verbatim>\<open>window.ipc\<close> first, then the value of each segment
  but the last two) is not an object. The receiver, which is the value of the last
  intermediate segment (or \<^verbatim>\<open>window.ipc\<close> for a path of one segment), only has to be truthy:
  the call throws an error that names the path when the receiver is falsy or its property
  named by the final segment is not a function, and otherwise invokes that function with
  exactly the given arguments. A call issued in a ready page does this at once; a call issued
  while the gate is pending is suspended. With \<^verbatim>\<open>window.ipc = { window: { setTitle: f } }\<close>,
  the path \<^verbatim>\<open>window.setTitle\<close> with argument \<^verbatim>\<open>Hello\<close> invokes \<open>f\<close> with \<^verbatim>\<open>Hello\<close>, and
  \<^verbatim>\<open>window.nonexistent\<close> fails with an error naming \<^verbatim>\<open>window.nonexistent\<close>, the namespace
  inheriting no function of that name. In a realm where strings have \<^verbatim>\<open>toUpperCase\<close>, the
  path \<^verbatim>\<open>toUpperCase\<close> on the string \<^verbatim>\<open>abc\<close> invokes that method.
\<close>

theorem C8_callIPC:
  "callIPC_body inh rt path args =
     (case firstNonObject inh rt (butlast (splitOn CHR ''.'' path)) 0 of
        Inl j \<Rightarrow> Inl (notAnObject path (splitOn CHR ''.'' path) j)
      | Inr receiver \<Rightarrow>
          (if truthy receiver then
             (case readProp inh receiver (last (splitOn CHR ''.'' path)) of
                JFun f ps \<Rightarrow> Inr (Invocation f args)
              | _ \<Rightarrow> Inl (notAFunction path))
           else Inl (notAFunction path)))
   \<and> (global s = Some w \<and> isReady s \<longrightarrow>
        step (Call (Ipc path args)) s =
          (case callIPC_body (inherited w) (ipc w) path args of
             Inl e \<Rightarrow> s\<lparr>rejected := rejected s @ [(Ipc path args, e)]\<rparr>
           | Inr c \<Rightarrow> s\<lparr>invoked := invoked s @ [(True, c)]\<rparr>))
   \<and> (global s \<noteq> None \<and> \<not> isReady s \<and> whenReady s = Pending \<longrightarrow>
        step (Call (Ipc path args)) s = s\<lparr>waiting := waiting s @ [Ipc path args]\<rparr>)
   \<and> callIPC_body inh exampleIpc ''window.setTitle'' [JStr ''Hello'']
       = Inr (Invocation 7 [JStr ''Hello''])
   \<and> (typeof (inh (JObj [(''setTitle'', JFun 7 [])]) ''nonexistent'') \<noteq> ''function'' \<longrightarrow>
        callIPC_body inh exampleIpc ''window.nonexistent'' args
          = Inl (Error (''IPC method '' @ apostrophe @ ''window.nonexistent'' @ apostrophe
                        @ '' is not available or not a function.'')))
   \<and> callIPC_body exampleRealm (JStr ''abc'') ''toUpperCase'' [] = Inr (Invocation 101 [])"
  using callIPC_body_eq [of inh rt path args] step_Call_Ipc_ready [of s w path args]
    ensureReady_pending [of s "Ipc path args"] ipc_examples(1) [of inh] ipc_examples(2) [of inh args]
    primitive_receiver(1)
  by (simp add: notAFunction_def)

theorem C8_callIPC_witness:
  "global readyPage = Some \<lparr>PYLOID = exampleBridge, ipc = exampleIpc, timers = [], nextTimer = 1,
                             inherited = exampleRealm\<rparr>
   \<and> isReady readyPage
   \<and> invoked (step (Call (Ipc ''window.setTitle'' [JStr ''Hello''])) readyPage)
       = [(True, Invocation 7 [JStr ''Hello''])]
   \<and> global pollingPage \<noteq> None \<and> \<not> isReady pollingPage \<and> whenReady pollingPage = Pending
   \<and> waiting (step (Call (Ipc ''window.setTitle'' [JStr ''Hello''])) pollingPage)
       = [Ipc ''window.setTitle'' [JStr ''Hello'']]
   \<and> typeof (exampleRealm (JObj [(''setTitle'', JFun 7 [])]) ''nonexistent'') \<noteq> ''function''
   \<and> callIPC_body exampleRealm exampleIpc ''window.nonexistent'' []
       = Inl (Error (''IPC method '' @ apostrophe @ ''window.nonexistent'' @ apostrophe
                     @ '' is not available or not a function.''))"
proof -
  have r: "global readyPage = Some \<lparr>PYLOID = exampleBridge, ipc = exampleIpc, timers = [], nextTimer = 1,
                                   inherited = exampleRealm\<rparr>"
    "isReady readyPage" "invoked readyPage = []"
    by (simp_all add: readyPage_eq isReady_def)
  have p: "global pollingPage \<noteq> None" "\<not> isReady pollingPage" "whenReady pollingPage = Pending"
    "waiting pollingPage = []"
    by (simp_all add: pollingPage_eq isReady_def whenReady_def)
  have n: "typeof (exampleRealm (JObj [(''setTitle'', JFun 7 [])]) ''nonexistent'') \<noteq> ''function''"
    by (simp add: exampleRealm_def)
  from r p n
    C8_callIPC [of exampleRealm exampleIpc "''window.setTitle''" "[JStr ''Hello'']" readyPage
      "\<lparr>PYLOID = exampleBridge, ipc = exampleIpc, timers = [], nextTimer = 1, inherited = exampleRealm\<rparr>",
      THEN conjunct2]
    C8_callIPC [of exampleRealm exampleIpc "''window.setTitle''" "[JStr ''Hello'']" pollingPage
      "\<lparr>PYLOID = exampleBridge, ipc = exampleIpc, timers = [], nextTimer = 1, inherited = exampleRealm\<rparr>",
      THEN conjunct2]
    C8_callIPC [of exampleRealm exampleIpc "''window.nonexistent''" "[]" readyPage
      "\<lparr>PYLOID = exampleBridge, ipc = exampleIpc, timers = [], nextTimer = 1, inherited = exampleRealm\<rparr>",
      THEN conjunct2]
  show ?thesis by simp
qed

text \<open>
  The claim as it was stated (failure as soon as an intermediate segment's value is not an
  object) fails: below, the value of the intermediate segment \<^verbatim>\<open>Window\<close> is a function,
  for which \<^verbatim>\<open>typeof\<close> is \<^verbatim>\<open>'function'\<close> and not \<^verbatim>\<open>'object'\<close>, and the call succeeds. The
  same function in a position that is indexed further is refused as not an object.
\<close>

theorem C8_counterexample:
  "typeof (readProp exampleRealm staticBridge ''Window'') = ''function''
   \<and> callIPC_body exampleRealm staticBridge ''Window.setTitle'' [JStr ''Hello'']
       = Inr (Invocation 2 [JStr ''Hello''])"
  by (simp add: callIPC_body_eq staticBridge_def readProp_def)

lemma function_not_indexed_further:
  "callIPC_body inh (JObj [(''Window'', JFun 1 [(''ns'', JObj [(''setTitle'', JFun 2 [])])])])
     ''Window.ns.setTitle'' args
   = Inl (Error (''IPC path '' @ apostrophe @ ''Window.ns.setTitle'' @ apostrophe
                 @ '' is not accessible. '' @ apostrophe @ ''Window.ns'' @ apostrophe
                 @ '' is not an object.''))"
  by (simp add: callIPC_body_eq readProp_def notAnObject_def)
section \<open>Claims about the caches of the fetch module and of the RPC client\<close>

text \<open>
  Claim C3. The three lazily initialized caches are the server URL and the window ID of the
  fetch module and the endpoint of an \<^verbatim>\<open>RpcClient\<close> that was constructed without one. In
  every run of the fetch module each host resolver is called at most once, and exactly once
  as soon as \<^verbatim>\<open>fetch\<close> has been called; every suspended call awaits the promise stored in
  the module, which is pending; and every request made was built from the one server URL and
  the one window ID that the module holds. In particular \<open>n \<ge> 1\<close> calls made while the
  caches are empty leave one lookup of each kind and \<open>n\<close> calls awaiting the two stored
  promises, and when the lookups resolve, the \<open>n\<close> requests all use the resolved URL and
  the resolved window ID. The same holds for the client: at most one call of the server-URL
  resolver, exactly one once \<^verbatim>\<open>call\<close> has been called, every suspended call awaits the
  stored endpoint promise, every request is posted to the stored endpoint, and \<open>n \<ge> 1\<close>
  calls made before the endpoint is known are all posted to the resolved endpoint.
\<close>

theorem C3_single_resolution:
  "getServerUrlCalls (fetchRun evs fetchModule) \<le> 1
   \<and> getWindowIdCalls (fetchRun evs fetchModule) \<le> 1
   \<and> (Fetch u opts \<in> set evs \<longrightarrow>
         getServerUrlCalls (fetchRun evs fetchModule) = 1
         \<and> getWindowIdCalls (fetchRun evs fetchModule) = 1)
   \<and> (\<forall>c \<in> set (suspended (fetchRun evs fetchModule)).
         (\<forall>p. serverUrlReady c = Awaiting p \<longrightarrow>
            serverUrlPromise (fetchRun evs fetchModule) = Some p
            \<and> promiseState (fetchRun evs fetchModule) p = Pending)
         \<and> (\<forall>p. windowIdReady c = Awaiting p \<longrightarrow>
            windowIdPromise (fetchRun evs fetchModule) = Some p
            \<and> promiseState (fetchRun evs fetchModule) p = Pending))
   \<and> (\<forall>r \<in> set (requests (fetchRun evs fetchModule)).
         \<exists>b w i. w \<noteq> [] \<and> serverUrl (fetchRun evs fetchModule) = Some b
           \<and> windowId (fetchRun evs fetchModule) = Some w
           \<and> requestUrl r = buildUrl b i \<and> sessionHeader r = JStr w)
   \<and> (cs \<noteq> [] \<longrightarrow>
         fetchRun (fetchCalls cs) fetchModule = fetchWaiting cs
         \<and> (url \<noteq> [] \<and> wid \<noteq> [] \<longrightarrow>
              fetchRun (fetchCalls cs @ [ServerUrlResult 0 (Inr url), WindowIdResult 1 (Inr wid)]) fetchModule =
                (fetchWaiting cs)\<lparr>serverUrl := Some url, windowId := Some wid,
                   promises := [Fulfilled url, Fulfilled wid],
                   serverUrlLookups := [], windowIdLookups := [], suspended := [],
                   requests := map (\<lambda>c. \<lparr>requestUrl = buildUrl url (fst c),
                                           requestInit = enhancedOptions (snd c) (Some wid)\<rparr>) cs\<rparr>))
   \<and> serverUrlCalls (rpcRun revs lazyClient) \<le> 1
   \<and> windowIdCalls (rpcRun revs lazyClient) \<le> 1
   \<and> (RpcCall m ps \<in> set revs \<longrightarrow> serverUrlCalls (rpcRun revs lazyClient) = 1)
   \<and> (\<forall>c \<in> set (calling (rpcRun revs lazyClient)).
         endpointPromise (client (rpcRun revs lazyClient)) = Some (fst c)
         \<and> rpcPromiseState (rpcRun revs lazyClient) (fst c) = Pending)
   \<and> (\<forall>r \<in> set (posted (rpcRun revs lazyClient)).
         endpoint (client (rpcRun revs lazyClient)) = Some (fst r))
   \<and> (rcs \<noteq> [] \<longrightarrow>
         rpcRun (rpcCalls rcs) lazyClient = rpcWaiting rcs
         \<and> (url \<noteq> [] \<longrightarrow>
              rpcRun (rpcCalls rcs @ [RpcServerUrlResult 0 (Inr url), RpcWindowIdResult 0 (Inr wid)]) lazyClient =
                (rpcWaiting rcs)\<lparr>client := \<lparr>endpoint = Some url, endpointPromise = Some 0,
                                             clientWindowId = Some wid\<rparr>,
                   rpcPromises := [Fulfilled url], initializing := [], windowIdCalls := 1, calling := [],
                   posted := map (\<lambda>c. (url, \<lparr>jsonrpc = ''2.0'', id' = Some wid, method = fst c,
                                               params = (if snd c = JUndefined then JObj [] else snd c)\<rparr>)) rcs\<rparr>))"
proof -
  note resolver_calls [of evs]
  moreover have "Fetch u opts \<in> set evs \<longrightarrow>
         getServerUrlCalls (fetchRun evs fetchModule) = 1
         \<and> getWindowIdCalls (fetchRun evs fetchModule) = 1"
    using resolver_calls_after_Fetch [of u opts evs] by blast
  moreover have "\<forall>c \<in> set (suspended (fetchRun evs fetchModule)).
         (\<forall>p. serverUrlReady c = Awaiting p \<longrightarrow>
            serverUrlPromise (fetchRun evs fetchModule) = Some p
            \<and> promiseState (fetchRun evs fetchModule) p = Pending)
         \<and> (\<forall>p. windowIdReady c = Awaiting p \<longrightarrow>
            windowIdPromise (fetchRun evs fetchModule) = Some p
            \<and> promiseState (fetchRun evs fetchModule) p = Pending)"
    using awaiting_stored [of _ evs] by blast
  moreover have "\<forall>r \<in> set (requests (fetchRun evs fetchModule)).
         \<exists>b w i. w \<noteq> [] \<and> serverUrl (fetchRun evs fetchModule) = Some b
           \<and> windowId (fetchRun evs fetchModule) = Some w
           \<and> requestUrl r = buildUrl b i \<and> sessionHeader r = JStr w"
    using requests_of_run [of _ evs] by blast
  moreover have "cs \<noteq> [] \<longrightarrow>
         fetchRun (fetchCalls cs) fetchModule = fetchWaiting cs
         \<and> (url \<noteq> [] \<and> wid \<noteq> [] \<longrightarrow>
              fetchRun (fetchCalls cs @ [ServerUrlResult 0 (Inr url), WindowIdResult 1 (Inr wid)]) fetchModule =
                (fetchWaiting cs)\<lparr>serverUrl := Some url, windowId := Some wid,
                   promises := [Fulfilled url, Fulfilled wid],
                   serverUrlLookups := [], windowIdLookups := [], suspended := [],
                   requests := map (\<lambda>c. \<lparr>requestUrl = buildUrl url (fst c),
                                           requestInit = enhancedOptions (snd c) (Some wid)\<rparr>) cs\<rparr>)"
    using concurrent_fetches [of cs] concurrent_fetches_resolved [of cs url wid] by blast
  moreover note rpc_resolver_calls [of revs]
  moreover have "RpcCall m ps \<in> set revs \<longrightarrow> serverUrlCalls (rpcRun revs lazyClient) = 1"
    using rpc_resolver_calls_after_call [of m ps revs] by blast
  moreover have "\<forall>c \<in> set (calling (rpcRun revs lazyClient)).
         endpointPromise (client (rpcRun revs lazyClient)) = Some (fst c)
         \<and> rpcPromiseState (rpcRun revs lazyClient) (fst c) = Pending"
    using calling_stored [of _ revs] by blast
  moreover have "\<forall>r \<in> set (posted (rpcRun revs lazyClient)).
         endpoint (client (rpcRun revs lazyClient)) = Some (fst r)"
    using posted_of_run [of _ revs] by blast
  moreover have "rcs \<noteq> [] \<longrightarrow>
         rpcRun (rpcCalls rcs) lazyClient = rpcWaiting rcs
         \<and> (url \<noteq> [] \<longrightarrow>
              rpcRun (rpcCalls rcs @ [RpcServerUrlResult 0 (Inr url), RpcWindowIdResult 0 (Inr wid)]) lazyClient =
                (rpcWaiting rcs)\<lparr>client := \<lparr>endpoint = Some url, endpointPromise = Some 0,
                                             clientWindowId = Some wid\<rparr>,
                   rpcPromises := [Fulfilled url], initializing := [], windowIdCalls := 1, calling := [],
                   posted := map (\<lambda>c. (url, \<lparr>jsonrpc = ''2.0'', id' = Some wid, method = fst c,
                                               params = (if snd c = JUndefined then JObj [] else snd c)\<rparr>)) rcs\<rparr>)"
    using concurrent_calls [of rcs] concurrent_calls_resolved [of rcs url wid] by blast
  ultimately show ?thesis by (intro conjI) blast+
qed

theorem C3_single_resolution_witness:
  "getServerUrlCalls (fetchRun [Fetch ''/a'' [], Fetch ''/b'' []] fetchModule) = 1
   \<and> getWindowIdCalls (fetchRun [Fetch ''/a'' [], Fetch ''/b'' []] fetchModule) = 1
   \<and> serverUrlPromise (fetchRun [Fetch ''/a'' [], Fetch ''/b'' []] fetchModule) = Some 0
   \<and> map serverUrlReady (suspended (fetchRun [Fetch ''/a'' [], Fetch ''/b'' []] fetchModule))
        = [Awaiting 0, Awaiting 0]
   \<and> map requestUrl (requests (fetchRun [Fetch ''/a'' [], Fetch ''/b'' [],
          ServerUrlResult 0 (Inr ''http://x''), WindowIdResult 1 (Inr ''w1'')] fetchModule))
        = [''http://x/a'', ''http://x/b'']
   \<and> getServerUrlCalls (fetchRun [Fetch ''/a'' [], Fetch ''/b'' [],
          ServerUrlResult 0 (Inr ''http://x''), WindowIdResult 1 (Inr ''w1'')] fetchModule) = 1
   \<and> serverUrlCalls (rpcRun [RpcCall ''ping'' JUndefined, RpcCall ''add'' (JNum 1)] lazyClient) = 1
   \<and> map fst (calling (rpcRun [RpcCall ''ping'' JUndefined, RpcCall ''add'' (JNum 1)] lazyClient)) = [0, 0]
   \<and> map fst (posted (rpcRun [RpcCall ''ping'' JUndefined, RpcCall ''add'' (JNum 1),
          RpcServerUrlResult 0 (Inr ''http://x/rpc''), RpcWindowIdResult 0 (Inr ''w1'')] lazyClient))
        = [''http://x/rpc'', ''http://x/rpc'']"
proof -
  define cs :: "(string \<times> (string \<times> jsval) list) list" where "cs = [(''/a'', []), (''/b'', [])]"
  define rcs where "rcs = [(''ping'', JUndefined), (''add'', JNum 1)]"
  have e1: "[Fetch ''/a'' [], Fetch ''/b'' []] = fetchCalls cs"
    and e2: "[Fetch ''/a'' [], Fetch ''/b'' [], ServerUrlResult 0 (Inr ''http://x''), WindowIdResult 1 (Inr ''w1'')]
       = fetchCalls cs @ [ServerUrlResult 0 (Inr ''http://x''), WindowIdResult 1 (Inr ''w1'')]"
    and e3: "[RpcCall ''ping'' JUndefined, RpcCall ''add'' (JNum 1)] = rpcCalls rcs"
    and e4: "[RpcCall ''ping'' JUndefined, RpcCall ''add'' (JNum 1),
          RpcServerUrlResult 0 (Inr ''http://x/rpc''), RpcWindowIdResult 0 (Inr ''w1'')]
       = rpcCalls rcs @ [RpcServerUrlResult 0 (Inr ''http://x/rpc''), RpcWindowIdResult 0 (Inr ''w1'')]"
    by (simp_all add: cs_def rcs_def fetchCalls_def rpcCalls_def)
  have ne: "cs \<noteq> []" "rcs \<noteq> []" by (simp_all add: cs_def rcs_def)
  have b: "map (\<lambda>c. buildUrl ''http://x'' (fst c)) cs = [''http://x/a'', ''http://x/b'']"
    by (simp add: cs_def buildUrl_def startsWith_def dropTrailingSlash_def dropLeadingSlash_def)
  from C3_single_resolution [of "[]" "''/a''" "[]" cs "''http://x''" "''w1''" "[]" "''ping''" JUndefined rcs] ne
  have f: "fetchRun (fetchCalls cs) fetchModule = fetchWaiting cs"
    "fetchRun (fetchCalls cs @ [ServerUrlResult 0 (Inr ''http://x''), WindowIdResult 1 (Inr ''w1'')]) fetchModule =
       (fetchWaiting cs)\<lparr>serverUrl := Some ''http://x'', windowId := Some ''w1'',
          promises := [Fulfilled ''http://x'', Fulfilled ''w1''],
          serverUrlLookups := [], windowIdLookups := [], suspended := [],
          requests := map (\<lambda>c. \<lparr>requestUrl = buildUrl ''http://x'' (fst c),
                                  requestInit = enhancedOptions (snd c) (Some ''w1'')\<rparr>) cs\<rparr>"
    by simp_all
  from C3_single_resolution [of "[]" "''/a''" "[]" cs "''http://x/rpc''" "''w1''" "[]" "''ping''" JUndefined rcs] ne
  have r: "rpcRun (rpcCalls rcs) lazyClient = rpcWaiting rcs"
    "rpcRun (rpcCalls rcs @ [RpcServerUrlResult 0 (Inr ''http://x/rpc''), RpcWindowIdResult 0 (Inr ''w1'')]) lazyClient =
       (rpcWaiting rcs)\<lparr>client := \<lparr>endpoint = Some ''http://x/rpc'', endpointPromise = Some 0,
                                    clientWindowId = Some ''w1''\<rparr>,
          rpcPromises := [Fulfilled ''http://x/rpc''], initializing := [], windowIdCalls := 1, calling := [],
          posted := map (\<lambda>c. (''http://x/rpc'', \<lparr>jsonrpc = ''2.0'', id' = Some ''w1'', method = fst c,
                                      params = (if snd c = JUndefined then JObj [] else snd c)\<rparr>)) rcs\<rparr>"
    by simp_all
  show ?thesis
    unfolding e1 e2 e3 e4 f r
    using b by (simp add: fetchWaiting_def rpcWaiting_def comp_def awaitingBoth_def) (simp add: cs_def rcs_def)
qed

text \<open>
  Claim C5. The options that \<^verbatim>\<open>fetch\<close> hands to the platform's \<^verbatim>\<open>fetch\<close> have, in their
  \<^verbatim>\<open>headers\<close> object, the property \<^verbatim>\<open>X-Pyloid-Window-Id\<close> with the value of the module's
  window ID, whatever the caller's options and headers are; every other header of the caller
  is kept. In every run of the module, each request made carries in that header a non-empty
  window ID, the one that the host resolver returned and that the module holds. A caller's
  header of the same name is replaced: the request below is sent with \<^verbatim>\<open>w1\<close>, not with
  \<^verbatim>\<open>evil\<close>.
\<close>

theorem C5_session_header:
  "sessionHeader \<lparr>requestUrl = u, requestInit = enhancedOptions opts wid\<rparr> = nullable wid
   \<and> (k \<noteq> ''X-Pyloid-Window-Id'' \<longrightarrow>
         getProp (getProp (JObj (enhancedOptions opts wid)) ''headers'') k
           = getProp (getProp (JObj opts) ''headers'') k)
   \<and> (\<forall>r \<in> set (requests (fetchRun evs fetchModule)).
         \<exists>w p. w \<noteq> [] \<and> WindowIdResult p (Inr w) \<in> set evs
           \<and> windowId (fetchRun evs fetchModule) = Some w \<and> sessionHeader r = JStr w)
   \<and> requests (fetchRun
        [Fetch ''/api'' [(''headers'', JObj [(''X-Pyloid-Window-Id'', JStr ''evil''),
                                            (''Accept'', JStr ''text/plain'')])],
         ServerUrlResult 0 (Inr ''http://x/''), WindowIdResult 1 (Inr ''w1'')] fetchModule)
      = [\<lparr>requestUrl = ''http://x/api'',
          requestInit = [(''headers'', JObj [(''X-Pyloid-Window-Id'', JStr ''w1''),
                                            (''Accept'', JStr ''text/plain'')])]\<rparr>]"
proof -
  have "fetchInv (fetchRun evs fetchModule)"
    by (rule fetchInv_run) (rule fetchInv_fetchModule)
  then have "\<forall>r \<in> set (requests (fetchRun evs fetchModule)).
      \<exists>w. w \<noteq> [] \<and> windowId (fetchRun evs fetchModule) = Some w \<and> sessionHeader r = JStr w"
    by (simp add: fetchInv_def)
  then have "\<forall>r \<in> set (requests (fetchRun evs fetchModule)).
         \<exists>w p. w \<noteq> [] \<and> WindowIdResult p (Inr w) \<in> set evs
           \<and> windowId (fetchRun evs fetchModule) = Some w \<and> sessionHeader r = JStr w"
    using windowId_origin [of evs] by blast
  with sessionHeader_enhanced [of u opts wid] other_header_kept [of k opts wid] header_example
  show ?thesis by blast
qed

theorem C5_session_header_witness:
  "sessionHeader (hd (requests (fetchRun
        [Fetch ''/api'' [(''headers'', JObj [(''X-Pyloid-Window-Id'', JStr ''evil''),
                                            (''Accept'', JStr ''text/plain'')])],
         ServerUrlResult 0 (Inr ''http://x/''), WindowIdResult 1 (Inr ''w1'')] fetchModule))) = JStr ''w1''
   \<and> windowId (fetchRun
        [Fetch ''/api'' [(''headers'', JObj [(''X-Pyloid-Window-Id'', JStr ''evil''),
                                            (''Accept'', JStr ''text/plain'')])],
         ServerUrlResult 0 (Inr ''http://x/''), WindowIdResult 1 (Inr ''w1'')] fetchModule) = Some ''w1''
   \<and> getProp (getProp (JObj (enhancedOptions
          [(''headers'', JObj [(''X-Pyloid-Window-Id'', JStr ''evil''), (''Accept'', JStr ''text/plain'')])]
          (Some ''w1''))) ''headers'') ''Accept'' = JStr ''text/plain''"
proof -
  let ?evs = "[Fetch ''/api'' [(''headers'', JObj [(''X-Pyloid-Window-Id'', JStr ''evil''),
                                            (''Accept'', JStr ''text/plain'')])],
         ServerUrlResult 0 (Inr ''http://x/''), WindowIdResult 1 (Inr ''w1'')]"
  let ?opts = "[(''headers'', JObj [(''X-Pyloid-Window-Id'', JStr ''evil''), (''Accept'', JStr ''text/plain'')])]"
  let ?r = "\<lparr>requestUrl = ''http://x/api'',
          requestInit = [(''headers'', JObj [(''X-Pyloid-Window-Id'', JStr ''w1''),
                                            (''Accept'', JStr ''text/plain'')])]\<rparr>"
  note t = C5_session_header [of "''''" ?opts "Some ''w1''" "''Accept''" ?evs]
  from t have rs: "requests (fetchRun ?evs fetchModule) = [?r]" by blast
  from t have "\<forall>r \<in> set (requests (fetchRun ?evs fetchModule)).
         \<exists>w p. w \<noteq> [] \<and> WindowIdResult p (Inr w) \<in> set ?evs
           \<and> windowId (fetchRun ?evs fetchModule) = Some w \<and> sessionHeader r = JStr w" by blast
  with rs obtain w where w: "windowId (fetchRun ?evs fetchModule) = Some w" "sessionHeader ?r = JStr w"
    by auto
  have h: "sessionHeader ?r = JStr ''w1''" by (simp add: sessionHeader_def getProp_def)
  with w have 1: "windowId (fetchRun ?evs fetchModule) = Some ''w1''" by simp
  from t have 2: "getProp (getProp (JObj (enhancedOptions ?opts (Some ''w1''))) ''headers'') ''Accept''
      = getProp (getProp (JObj ?opts) ''headers'') ''Accept''" by simp
  have 3: "getProp (getProp (JObj ?opts) ''headers'') ''Accept'' = JStr ''text/plain''"
    by (simp add: getProp_def)
  from rs h 1 2 3 show ?thesis by simp
qed

text \<open>
  Claim C4. After a failed lookup the stored promise would have to be cleared, so that a
  later call starts a fresh attempt. The code does not clear it. In the run below the first
  \<^verbatim>\<open>fetch\<close> starts the lookup of the server URL, the host resolver rejects, and a second
  \<^verbatim>\<open>fetch\<close> follows: the variable is still empty, the rejected promise is still stored,
  the resolver has been called once and not twice, and the second call is rejected with the
  error of the first attempt. The client does the same with its endpoint promise.
\<close>

theorem C4_stored_promise_kept:
  "serverUrl (fetchRun [Fetch ''/a'' [], ServerUrlResult 0 (Inl ''Error: boom'')] fetchModule) = None
   \<and> serverUrlPromise (fetchRun [Fetch ''/a'' [], ServerUrlResult 0 (Inl ''Error: boom'')] fetchModule) = Some 0
   \<and> promiseState (fetchRun [Fetch ''/a'' [], ServerUrlResult 0 (Inl ''Error: boom'')] fetchModule) 0
       = Rejected (Error ''Failed to get server URL: Error: boom'')
   \<and> getServerUrlCalls (fetchRun [Fetch ''/a'' [], ServerUrlResult 0 (Inl ''Error: boom''), Fetch ''/b'' []]
        fetchModule) = 1
   \<and> failures (fetchRun [Fetch ''/a'' [], ServerUrlResult 0 (Inl ''Error: boom''), Fetch ''/b'' []] fetchModule)
       = [(''/a'', Error ''Failed to get server URL: Error: boom''),
          (''/b'', Error ''Failed to get server URL: Error: boom'')]
   \<and> endpointPromise (client (rpcRun [RpcCall ''ping'' JUndefined, RpcServerUrlResult 0 (Inl ''Error: boom'')]
        lazyClient)) = Some 0
   \<and> serverUrlCalls (rpcRun [RpcCall ''ping'' JUndefined, RpcServerUrlResult 0 (Inl ''Error: boom''),
        RpcCall ''ping'' JUndefined] lazyClient) = 1
   \<and> refused (rpcRun [RpcCall ''ping'' JUndefined, RpcServerUrlResult 0 (Inl ''Error: boom''),
        RpcCall ''ping'' JUndefined] lazyClient)
       = [((''ping'', JUndefined), Error ''Failed to get RPC endpoint: Error: boom''),
          ((''ping'', JUndefined), Error ''Failed to get RPC endpoint: Error: boom'')]"
proof -
  let ?evs = "[Fetch ''/a'' [], ServerUrlResult 0 (Inl ''Error: boom'')]"
  let ?revs = "[RpcCall ''ping'' JUndefined, RpcServerUrlResult 0 (Inl ''Error: boom'')]"
  let ?e = "Error ''Failed to get server URL: Error: boom''"
  let ?e' = "Error ''Failed to get RPC endpoint: Error: boom''"
  have a: "[Fetch ''/a'' [], ServerUrlResult 0 (Inl ''Error: boom''), Fetch ''/b'' []] = ?evs @ [] @ [Fetch ''/b'' []]"
    "[Fetch ''/a'' [], ServerUrlResult 0 (Inl ''Error: boom''), Fetch ''/b'' []] = ?evs @ [Fetch ''/b'' []]"
    "[RpcCall ''ping'' JUndefined, RpcServerUrlResult 0 (Inl ''Error: boom''), RpcCall ''ping'' JUndefined]
       = ?revs @ [RpcCall ''ping'' JUndefined]"
    by simp_all
  from fetch_serverUrl_failure_final [OF failed_fetch_facts(1,2), of "[Fetch ''/b'' []]"]
  have 1: "getServerUrlCalls (fetchRun (?evs @ [Fetch ''/b'' []]) fetchModule) = 1" by blast
  from fetch_serverUrl_failure_final [OF failed_fetch_facts(1,2), of "[]" "''/b''" "[]"] failed_fetch_facts(4)
  have 2: "failures (fetchRun (?evs @ [] @ [Fetch ''/b'' []]) fetchModule) = [(''/a'', ?e), (''/b'', ?e)]"
    by simp
  from failed_rpc_facts(3) have un: "unset (endpoint (client (rpcRun ?revs lazyClient)))"
    by (simp add: unset_def)
  from rpc_failure_final [OF failed_rpc_facts(1,2), of "[RpcCall ''ping'' JUndefined]"] un
  have 3: "serverUrlCalls (rpcRun (?revs @ [RpcCall ''ping'' JUndefined]) lazyClient) = 1"
    and "rpcRun (?revs @ [RpcCall ''ping'' JUndefined]) lazyClient =
             (rpcRun ?revs lazyClient)\<lparr>refused := refused (rpcRun ?revs lazyClient)
                                            @ map (\<lambda>c. (c, ?e')) (callsOf [RpcCall ''ping'' JUndefined])\<rparr>"
    by blast+
  then have "refused (rpcRun (?revs @ [RpcCall ''ping'' JUndefined]) lazyClient)
      = refused (rpcRun ?revs lazyClient) @ [((''ping'', JUndefined), ?e')]"
    by simp
  with failed_rpc_facts(4) have 4: "refused (rpcRun (?revs @ [RpcCall ''ping'' JUndefined]) lazyClient)
      = [((''ping'', JUndefined), ?e'), ((''ping'', JUndefined), ?e')]"
    by simp
  from failed_fetch_facts(1,2,3) failed_rpc_facts(1) 1 [folded a(2)] 2 [folded a(1)] 3 [folded a(3)] 4 [folded a(3)]
  show ?thesis by (intro conjI)
qed

section \<open>Claims about the RPC client\<close>

text \<open>
  Claim C7, as amended. A call posts the request \<^verbatim>\<open>{jsonrpc: "2.0", method, params, id}\<close> to
  the endpoint, with the given \<^verbatim>\<open>params\<close> or, when they are omitted, the empty object. On a
  client that initializes lazily, \<^verbatim>\<open>id\<close> is the session identifier that the host returned:
  for a call made once the client holds the identifier; and for a call made while the
  endpoint is not known yet, which waits, also when the endpoint arrives, and is posted,
  with the identifier, when the identifier arrives. On a client constructed with a
  non-empty endpoint, \<^verbatim>\<open>id\<close> is \<^verbatim>\<open>null\<close>. For a parsed response other than \<^verbatim>\<open>null\<close>, the call
  throws exactly when the response has a truthy \<^verbatim>\<open>error\<close>; for a response whose \<^verbatim>\<open>error\<close>
  is absent, \<^verbatim>\<open>null\<close> or an object, as the interface declares it, that is exactly when it
  carries an error object. For an error object with a string as message and a number as
  code, the text of the error thrown holds the message and the code as the platform prints
  it, which for an integer of at most \<open>2\<^sup>5\<^sup>3\<close> in magnitude are its digits. Without an
  error the call returns the \<^verbatim>\<open>result\<close> member. The scenario: \<^verbatim>\<open>ping\<close> without \<^verbatim>\<open>params\<close> is
  posted with the empty object and the session identifier, and the response with code
  \<open>-32601\<close> and message \<^verbatim>\<open>Method not found\<close> makes the call fail with an error that shows
  both.
\<close>

theorem C7_call:
  "(clientWindowId (client (rpcRun evs lazyClient)) = Some wid \<longrightarrow>
      (\<exists>p. RpcWindowIdResult p (Inr wid) \<in> set evs)
      \<and> (\<exists>url. endpoint (client (rpcRun evs lazyClient)) = Some url
            \<and> (url \<noteq> [] \<longrightarrow>
                 rpcStep (RpcCall m ps) (rpcRun evs lazyClient) =
                   (rpcRun evs lazyClient)\<lparr>posted := posted (rpcRun evs lazyClient) @
                      [(url, \<lparr>jsonrpc = ''2.0'', id' = Some wid, method = m,
                              params = (if ps = JUndefined then JObj [] else ps)\<rparr>)]\<rparr>)))
   \<and> (endpoint (client (rpcRun evs lazyClient)) = None
        \<and> (\<forall>e. rpcPromiseState (rpcRun evs lazyClient) 0 \<noteq> Rejected e) \<longrightarrow>
      calling (rpcStep (RpcCall m ps) (rpcRun evs lazyClient))
        = calling (rpcRun evs lazyClient) @ [(0, m, ps)]
      \<and> posted (rpcStep (RpcCall m ps) (rpcRun evs lazyClient)) = posted (rpcRun evs lazyClient)
      \<and> refused (rpcStep (RpcCall m ps) (rpcRun evs lazyClient)) = refused (rpcRun evs lazyClient))
   \<and> ((p, None) \<in> set (initializing (rpcRun evs lazyClient)) \<longrightarrow>
      calling (rpcStep (RpcServerUrlResult p (Inr url)) (rpcRun evs lazyClient))
        = calling (rpcRun evs lazyClient)
      \<and> posted (rpcStep (RpcServerUrlResult p (Inr url)) (rpcRun evs lazyClient))
        = posted (rpcRun evs lazyClient)
      \<and> refused (rpcStep (RpcServerUrlResult p (Inr url)) (rpcRun evs lazyClient))
        = refused (rpcRun evs lazyClient))
   \<and> (map_of (initializing (rpcRun evs lazyClient)) p = Some (Some url) \<and> url \<noteq> [] \<longrightarrow>
      rpcStep (RpcWindowIdResult p (Inr wid)) (rpcRun evs lazyClient) =
        (rpcRun evs lazyClient)
          \<lparr>client := \<lparr>endpoint = Some url, endpointPromise = Some 0, clientWindowId = Some wid\<rparr>,
           rpcPromises := [Fulfilled url], initializing := [], calling := [],
           posted := posted (rpcRun evs lazyClient) @
             map (\<lambda>c. (url, \<lparr>jsonrpc = ''2.0'', id' = Some wid, method = fst (snd c),
                              params = (if snd (snd c) = JUndefined then JObj [] else snd (snd c))\<rparr>))
               (calling (rpcRun evs lazyClient))\<rparr>)
   \<and> (cs \<noteq> [] \<and> url \<noteq> [] \<longrightarrow>
        posted (rpcRun (rpcCalls cs @ [RpcServerUrlResult 0 (Inr url), RpcWindowIdResult 0 (Inr wid)] @ evs')
                  lazyClient)
          = map (\<lambda>c. (url, \<lparr>jsonrpc = ''2.0'', id' = Some wid, method = fst c,
                            params = (if snd c = JUndefined then JObj [] else snd c)\<rparr>)) (cs @ callsOf evs'))
   \<and> (ep \<noteq> [] \<longrightarrow>
        posted (rpcRun evs (newRpcClient (Some ep)))
          = map (\<lambda>c. (ep, \<lparr>jsonrpc = ''2.0'', id' = None, method = fst c,
                           params = (if snd c = JUndefined then JObj [] else snd c)\<rparr>)) (callsOf evs))
   \<and> (d \<noteq> JsonNull \<longrightarrow>
        ((\<exists>e. finishCall conv (Parsed d) = Inl e) \<longleftrightarrow> jsonTruthy (member d ''error''))
        \<and> (\<not> jsonTruthy (member d ''error'') \<longrightarrow> finishCall conv (Parsed d) = Inr (member d ''result'')))
   \<and> (d \<noteq> JsonNull
        \<and> (member d ''error'' = None \<or> member d ''error'' = Some JsonNull
             \<or> (\<exists>fields. member d ''error'' = Some (JsonObj fields))) \<longrightarrow>
        ((\<exists>e. finishCall conv (Parsed d) = Inl e) \<longleftrightarrow> (\<exists>fields. member d ''error'' = Some (JsonObj fields))))
   \<and> (member d ''error'' = Some (JsonObj err) \<and> map_of err ''message'' = Some (JsonStr msg)
        \<and> map_of err ''code'' = Some (JsonNum c) \<and> of_int \<lfloor>c\<rfloor> = c \<and> \<bar>c\<bar> \<le> 2 ^ 53 \<longrightarrow>
        finishCall conv (Parsed d)
          = Inl (Error (''RPC Error: '' @ msg @ '' (Code: '' @ showInt \<lfloor>c\<rfloor> @ '')'')))
   \<and> (member d ''error'' = Some (JsonObj err) \<and> map_of err ''message'' = Some (JsonStr msg)
        \<and> map_of err ''code'' = Some (JsonNum c) \<and> conv (JsonNum c) = Inr t \<longrightarrow>
        finishCall conv (Parsed d)
          = Inl (Error (''RPC Error: '' @ msg @ '' (Code: ''
                        @ (if of_int \<lfloor>c\<rfloor> = c \<and> \<bar>c\<bar> \<le> 2 ^ 53 then showInt \<lfloor>c\<rfloor> else t) @ '')'')))
   \<and> posted (rpcRun [RpcCall ''ping'' JUndefined, RpcServerUrlResult 0 (Inr ''http://x/rpc''),
                      RpcWindowIdResult 0 (Inr ''w1'')] lazyClient)
       = [(''http://x/rpc'', \<lparr>jsonrpc = ''2.0'', id' = Some ''w1'', method = ''ping'', params = JObj []\<rparr>)]
   \<and> finishCall conv (Parsed (JsonObj [(''jsonrpc'', JsonStr ''2.0''),
        (''error'', JsonObj [(''code'', JsonNum (- 32601)), (''message'', JsonStr ''Method not found'')]),
        (''id'', JsonStr ''w1'')]))
       = Inl (Error ''RPC Error: Method not found (Code: -32601)'')"
proof -
  have 1: "clientWindowId (client (rpcRun evs lazyClient)) = Some wid \<longrightarrow>
      (\<exists>p. RpcWindowIdResult p (Inr wid) \<in> set evs)
      \<and> (\<exists>url. endpoint (client (rpcRun evs lazyClient)) = Some url
            \<and> (url \<noteq> [] \<longrightarrow>
                 rpcStep (RpcCall m ps) (rpcRun evs lazyClient) =
                   (rpcRun evs lazyClient)\<lparr>posted := posted (rpcRun evs lazyClient) @
                      [(url, \<lparr>jsonrpc = ''2.0'', id' = Some wid, method = m,
                              params = (if ps = JUndefined then JObj [] else ps)\<rparr>)]\<rparr>))"
    using clientWindowId_origin [of evs wid] initialized_call [of evs wid m ps] by blast
  have 2: "endpoint (client (rpcRun evs lazyClient)) = None
        \<and> (\<forall>e. rpcPromiseState (rpcRun evs lazyClient) 0 \<noteq> Rejected e) \<longrightarrow>
      calling (rpcStep (RpcCall m ps) (rpcRun evs lazyClient))
        = calling (rpcRun evs lazyClient) @ [(0, m, ps)]
      \<and> posted (rpcStep (RpcCall m ps) (rpcRun evs lazyClient)) = posted (rpcRun evs lazyClient)
      \<and> refused (rpcStep (RpcCall m ps) (rpcRun evs lazyClient)) = refused (rpcRun evs lazyClient)"
    using early_call_waits [of evs m ps] by blast
  have 10: "((p, None) \<in> set (initializing (rpcRun evs lazyClient)) \<longrightarrow>
        calling (rpcStep (RpcServerUrlResult p (Inr url)) (rpcRun evs lazyClient))
          = calling (rpcRun evs lazyClient)
        \<and> posted (rpcStep (RpcServerUrlResult p (Inr url)) (rpcRun evs lazyClient))
          = posted (rpcRun evs lazyClient)
        \<and> refused (rpcStep (RpcServerUrlResult p (Inr url)) (rpcRun evs lazyClient))
          = refused (rpcRun evs lazyClient))"
    using endpoint_keeps_waiting [of p evs url] by blast
  have 3: "map_of (initializing (rpcRun evs lazyClient)) p = Some (Some url) \<and> url \<noteq> [] \<longrightarrow>
      rpcStep (RpcWindowIdResult p (Inr wid)) (rpcRun evs lazyClient) =
        (rpcRun evs lazyClient)
          \<lparr>client := \<lparr>endpoint = Some url, endpointPromise = Some 0, clientWindowId = Some wid\<rparr>,
           rpcPromises := [Fulfilled url], initializing := [], calling := [],
           posted := posted (rpcRun evs lazyClient) @
             map (\<lambda>c. (url, \<lparr>jsonrpc = ''2.0'', id' = Some wid, method = fst (snd c),
                              params = (if snd (snd c) = JUndefined then JObj [] else snd (snd c))\<rparr>))
               (calling (rpcRun evs lazyClient))\<rparr>"
    using session_resumes_calls [of evs p url wid] by blast
  have 4: "cs \<noteq> [] \<and> url \<noteq> [] \<longrightarrow>
        posted (rpcRun (rpcCalls cs @ [RpcServerUrlResult 0 (Inr url), RpcWindowIdResult 0 (Inr wid)] @ evs')
                  lazyClient)
          = map (\<lambda>c. (url, \<lparr>jsonrpc = ''2.0'', id' = Some wid, method = fst c,
                            params = (if snd c = JUndefined then JObj [] else snd c)\<rparr>)) (cs @ callsOf evs')"
    using lazy_calls_posted [of cs url wid evs'] by blast
  have 5: "ep \<noteq> [] \<longrightarrow>
        posted (rpcRun evs (newRpcClient (Some ep)))
          = map (\<lambda>c. (ep, \<lparr>jsonrpc = ''2.0'', id' = None, method = fst c,
                           params = (if snd c = JUndefined then JObj [] else snd c)\<rparr>)) (callsOf evs)"
  proof
    assume ne: "ep \<noteq> []"
    then have "eagerInv ep (newRpcClient (Some ep))" by (rule eagerInv_new)
    from eager_run [OF this ne, of evs] ne show "posted (rpcRun evs (newRpcClient (Some ep)))
          = map (\<lambda>c. (ep, \<lparr>jsonrpc = ''2.0'', id' = None, method = fst c,
                           params = (if snd c = JUndefined then JObj [] else snd c)\<rparr>)) (callsOf evs)"
      by (simp add: newRpcClient_def lazyClient_def)
  qed
  have 6: "d \<noteq> JsonNull \<longrightarrow>
        ((\<exists>e. finishCall conv (Parsed d) = Inl e) \<longleftrightarrow> jsonTruthy (member d ''error''))
        \<and> (\<not> jsonTruthy (member d ''error'') \<longrightarrow> finishCall conv (Parsed d) = Inr (member d ''result''))"
    using finishCall_fails [of d conv] finishCall_result [of d conv] by blast
  have 11: "(d \<noteq> JsonNull
        \<and> (member d ''error'' = None \<or> member d ''error'' = Some JsonNull
             \<or> (\<exists>fields. member d ''error'' = Some (JsonObj fields))) \<longrightarrow>
        ((\<exists>e. finishCall conv (Parsed d) = Inl e) \<longleftrightarrow> (\<exists>fields. member d ''error'' = Some (JsonObj fields))))"
    using finishCall_fails [of d conv] by auto
  have 7: "member d ''error'' = Some (JsonObj err) \<and> map_of err ''message'' = Some (JsonStr msg)
        \<and> map_of err ''code'' = Some (JsonNum c) \<and> of_int \<lfloor>c\<rfloor> = c \<and> \<bar>c\<bar> \<le> 2 ^ 53 \<longrightarrow>
        finishCall conv (Parsed d)
          = Inl (Error (''RPC Error: '' @ msg @ '' (Code: '' @ showInt \<lfloor>c\<rfloor> @ '')''))"
    using finishCall_error [of d err msg c conv] by blast
  have 9: "member d ''error'' = Some (JsonObj err) \<and> map_of err ''message'' = Some (JsonStr msg)
        \<and> map_of err ''code'' = Some (JsonNum c) \<and> conv (JsonNum c) = Inr t \<longrightarrow>
        finishCall conv (Parsed d)
          = Inl (Error (''RPC Error: '' @ msg @ '' (Code: ''
                        @ (if of_int \<lfloor>c\<rfloor> = c \<and> \<bar>c\<bar> \<le> 2 ^ 53 then showInt \<lfloor>c\<rfloor> else t) @ '')''))"
    using finishCall_error_number [of d err msg c conv t] by blast
  have 8: "posted (rpcRun [RpcCall ''ping'' JUndefined, RpcServerUrlResult 0 (Inr ''http://x/rpc''),
                      RpcWindowIdResult 0 (Inr ''w1'')] lazyClient)
       = [(''http://x/rpc'', \<lparr>jsonrpc = ''2.0'', id' = Some ''w1'', method = ''ping'', params = JObj []\<rparr>)]"
    by (simp add: ping_example)
  from 1 2 10 3 4 5 6 11 7 9 8 method_not_found [of conv] show ?thesis by (intro conjI)
qed

theorem C7_call_witness:
  "calling (rpcStep (RpcCall ''ping'' JUndefined) (rpcRun [] lazyClient)) = [(0, ''ping'', JUndefined)]
   \<and> posted (rpcStep (RpcCall ''ping'' JUndefined) (rpcRun [] lazyClient)) = []
   \<and> posted (rpcStep (RpcWindowIdResult 0 (Inr ''w1''))
        (rpcRun [RpcCall ''ping'' JUndefined, RpcServerUrlResult 0 (Inr ''http://x/rpc'')] lazyClient))
       = [(''http://x/rpc'', \<lparr>jsonrpc = ''2.0'', id' = Some ''w1'', method = ''ping'', params = JObj []\<rparr>)]
   \<and> posted (rpcStep (RpcCall ''add'' (JNum 1))
        (rpcRun [RpcCall ''ping'' JUndefined, RpcServerUrlResult 0 (Inr ''http://x/rpc''),
                 RpcWindowIdResult 0 (Inr ''w1'')] lazyClient))
       = [(''http://x/rpc'', \<lparr>jsonrpc = ''2.0'', id' = Some ''w1'', method = ''ping'', params = JObj []\<rparr>),
          (''http://x/rpc'', \<lparr>jsonrpc = ''2.0'', id' = Some ''w1'', method = ''add'', params = JNum 1\<rparr>)]
   \<and> posted (rpcRun (rpcCalls [(''ping'', JUndefined)]
          @ [RpcServerUrlResult 0 (Inr ''http://x/rpc''), RpcWindowIdResult 0 (Inr ''w1'')]
          @ [RpcCall ''add'' (JNum 1)]) lazyClient)
       = [(''http://x/rpc'', \<lparr>jsonrpc = ''2.0'', id' = Some ''w1'', method = ''ping'', params = JObj []\<rparr>),
          (''http://x/rpc'', \<lparr>jsonrpc = ''2.0'', id' = Some ''w1'', method = ''add'', params = JNum 1\<rparr>)]
   \<and> posted (rpcRun [RpcCall ''add'' (JNum 1)] (newRpcClient (Some ''http://x/rpc'')))
       = [(''http://x/rpc'', \<lparr>jsonrpc = ''2.0'', id' = None, method = ''add'', params = JNum 1\<rparr>)]
   \<and> finishCall (\<lambda>j. Inl TypeError) (Parsed (JsonObj [(''result'', JsonStr ''pong''), (''id'', JsonStr ''w1'')]))
       = Inr (Some (JsonStr ''pong''))
   \<and> finishCall (\<lambda>j. Inl TypeError)
        (Parsed (JsonObj [(''error'', JsonObj [(''code'', JsonNum 7), (''message'', JsonStr ''No'')])]))
       = Inl (Error ''RPC Error: No (Code: 7)'')
   \<and> finishCall (\<lambda>j. Inr ''1.5'')
        (Parsed (JsonObj [(''error'', JsonObj [(''code'', JsonNum (3 / 2)), (''message'', JsonStr ''No'')])]))
       = Inl (Error ''RPC Error: No (Code: 1.5)'')"
proof -
  let ?conv = "\<lambda>j::json. Inl TypeError :: js_error + string"
  let ?ok = "JsonObj [(''result'', JsonStr ''pong''), (''id'', JsonStr ''w1'')]"
  let ?bad = "JsonObj [(''error'', JsonObj [(''code'', JsonNum 7), (''message'', JsonStr ''No'')])]"
  let ?e2 = "[RpcCall ''ping'' JUndefined, RpcServerUrlResult 0 (Inr ''http://x/rpc'')]"
  let ?e3 = "[RpcCall ''ping'' JUndefined, RpcServerUrlResult 0 (Inr ''http://x/rpc''),
              RpcWindowIdResult 0 (Inr ''w1'')]"
  have s0: "endpoint (client (rpcRun [] lazyClient)) = None"
    "\<forall>e. rpcPromiseState (rpcRun [] lazyClient) 0 \<noteq> Rejected e"
    "calling (rpcRun [] lazyClient) = []" "posted (rpcRun [] lazyClient) = []"
    by (simp_all add: rpcRun_def lazyClient_def rpcPromiseState_def)
  have s2: "map_of (initializing (rpcRun ?e2 lazyClient)) 0 = Some (Some ''http://x/rpc'')"
    "calling (rpcRun ?e2 lazyClient) = [(0, ''ping'', JUndefined)]"
    "posted (rpcRun ?e2 lazyClient) = []"
    by (simp_all add: endpoint_example rpcWaiting_def)
  have s3: "clientWindowId (client (rpcRun ?e3 lazyClient)) = Some ''w1''"
    "endpoint (client (rpcRun ?e3 lazyClient)) = Some ''http://x/rpc''"
    "posted (rpcRun ?e3 lazyClient)
       = [(''http://x/rpc'', \<lparr>jsonrpc = ''2.0'', id' = Some ''w1'', method = ''ping'', params = JObj []\<rparr>)]"
    by (simp_all add: ping_example)
  have sh: "showInt 7 = ''7''" by (simp add: showInt_def showNat.simps)
  note a = C7_call [of "[]" "''w''" "''ping''" JUndefined 0 "''u''" "[(''ping'', JUndefined)]" "[]"
      "''http://x/rpc''" ?ok ?conv "[]" "''''" 0]
  note b = C7_call [of ?e2 "''w1''" "''ping''" JUndefined 0 "''http://x/rpc''" "[(''ping'', JUndefined)]"
      "[RpcCall ''add'' (JNum 1)]" "''http://x/rpc''" ?bad ?conv
      "[(''code'', JsonNum 7), (''message'', JsonStr ''No'')]" "''No''" 7]
  note c = C7_call [of ?e3 "''w1''" "''add''" "JNum 1" 0 "''http://x/rpc''" "[(''ping'', JUndefined)]"
      "[]" "''http://x/rpc''" ?ok ?conv "[]" "''''" 0]
  note d = C7_call [of "[RpcCall ''add'' (JNum 1)]" "''w1''" "''add''" "JNum 1" 0 "''http://x/rpc''"
      "[(''ping'', JUndefined)]" "[]" "''http://x/rpc''" ?ok ?conv "[]" "''''" 0]
  from a s0 have 1: "calling (rpcStep (RpcCall ''ping'' JUndefined) (rpcRun [] lazyClient)) = [(0, ''ping'', JUndefined)]"
    "posted (rpcStep (RpcCall ''ping'' JUndefined) (rpcRun [] lazyClient)) = []"
    by simp_all
  from b s2 have 2: "posted (rpcStep (RpcWindowIdResult 0 (Inr ''w1'')) (rpcRun ?e2 lazyClient))
       = [(''http://x/rpc'', \<lparr>jsonrpc = ''2.0'', id' = Some ''w1'', method = ''ping'', params = JObj []\<rparr>)]"
    by simp
  from c s3 have 3: "posted (rpcStep (RpcCall ''add'' (JNum 1)) (rpcRun ?e3 lazyClient))
       = [(''http://x/rpc'', \<lparr>jsonrpc = ''2.0'', id' = Some ''w1'', method = ''ping'', params = JObj []\<rparr>),
          (''http://x/rpc'', \<lparr>jsonrpc = ''2.0'', id' = Some ''w1'', method = ''add'', params = JNum 1\<rparr>)]"
    by auto
  from b have 4: "posted (rpcRun (rpcCalls [(''ping'', JUndefined)]
          @ [RpcServerUrlResult 0 (Inr ''http://x/rpc''), RpcWindowIdResult 0 (Inr ''w1'')]
          @ [RpcCall ''add'' (JNum 1)]) lazyClient)
       = [(''http://x/rpc'', \<lparr>jsonrpc = ''2.0'', id' = Some ''w1'', method = ''ping'', params = JObj []\<rparr>),
          (''http://x/rpc'', \<lparr>jsonrpc = ''2.0'', id' = Some ''w1'', method = ''add'', params = JNum 1\<rparr>)]"
    by simp
  from d have 5: "posted (rpcRun [RpcCall ''add'' (JNum 1)] (newRpcClient (Some ''http://x/rpc'')))
       = [(''http://x/rpc'', \<lparr>jsonrpc = ''2.0'', id' = None, method = ''add'', params = JNum 1\<rparr>)]"
    by simp
  from a have 6: "finishCall ?conv (Parsed ?ok) = Inr (Some (JsonStr ''pong''))"
    by (simp add: member_def)
  from b sh have 7: "finishCall ?conv (Parsed ?bad) = Inl (Error ''RPC Error: No (Code: 7)'')"
    by (simp add: member_def)
  have "\<lfloor>3 / 2 :: rat\<rfloor> = 1" by (rule floor_unique) simp_all
  then have f: "of_int \<lfloor>3 / 2 :: rat\<rfloor> \<noteq> (3 / 2 :: rat)" by simp
  from C7_call [of "[]" "''w''" "''ping''" JUndefined 0 "''u''" "[(''ping'', JUndefined)]" "[]"
      "''http://x/rpc''" "JsonObj [(''error'', JsonObj [(''code'', JsonNum (3 / 2)), (''message'', JsonStr ''No'')])]"
      "\<lambda>j. Inr ''1.5''" "[(''code'', JsonNum (3 / 2)), (''message'', JsonStr ''No'')]" "''No''" "3 / 2" "''1.5''"] f
  have 8: "finishCall (\<lambda>j. Inr ''1.5'')
        (Parsed (JsonObj [(''error'', JsonObj [(''code'', JsonNum (3 / 2)), (''message'', JsonStr ''No'')])]))
       = Inl (Error ''RPC Error: No (Code: 1.5)'')"
    by (simp add: member_def)
  from 1 2 3 4 5 6 7 8 show ?thesis by (intro conjI)
qed

text \<open>
  The claim as it was stated, the session identifier as \<^verbatim>\<open>id\<close> of every call, fails for a
  client constructed with an endpoint: its constructor sets the endpoint and nothing else,
  and its requests are posted with \<^verbatim>\<open>id\<close> \<^verbatim>\<open>null\<close>.
\<close>

theorem C7_counterexample:
  "posted (rpcRun [RpcCall ''ping'' JUndefined] (newRpcClient (Some ''http://x/rpc'')))
     = [(''http://x/rpc'', \<lparr>jsonrpc = ''2.0'', id' = None, method = ''ping'', params = JObj []\<rparr>)]"
proof -
  have ne: "''http://x/rpc'' \<noteq> []" by simp
  then have "eagerInv ''http://x/rpc'' (newRpcClient (Some ''http://x/rpc''))" by (rule eagerInv_new)
  from eager_run [OF this ne, of "[RpcCall ''ping'' JUndefined]"] show ?thesis
    by (simp add: newRpcClient_def lazyClient_def)
qed

text \<open>
  Claim C10, as amended. A client constructed with a non-empty initial endpoint never calls
  a host resolver, neither for the server URL nor for the window ID, whatever happens: it
  has no suspended initialization and no suspended call, its \<^verbatim>\<open>windowId\<close> field stays
  \<^verbatim>\<open>null\<close>, no call is refused, and every call is posted to the given endpoint at once, with
  \<^verbatim>\<open>id\<close> \<^verbatim>\<open>null\<close>.
\<close>

theorem C10_explicit_endpoint:
  assumes "e \<noteq> []"
  shows "serverUrlCalls (rpcRun evs (newRpcClient (Some e))) = 0
     \<and> windowIdCalls (rpcRun evs (newRpcClient (Some e))) = 0
     \<and> initializing (rpcRun evs (newRpcClient (Some e))) = []
     \<and> calling (rpcRun evs (newRpcClient (Some e))) = []
     \<and> refused (rpcRun evs (newRpcClient (Some e))) = []
     \<and> clientWindowId (client (rpcRun evs (newRpcClient (Some e)))) = None
     \<and> posted (rpcRun evs (newRpcClient (Some e)))
         = map (\<lambda>c. (e, \<lparr>jsonrpc = ''2.0'', id' = None, method = fst c,
                          params = (if snd c = JUndefined then JObj [] else snd c)\<rparr>)) (callsOf evs)
     \<and> (\<forall>r \<in> set (posted (rpcRun evs (newRpcClient (Some e)))). id' (snd r) = None)"
proof -
  from assms have "eagerInv e (newRpcClient (Some e))" by (rule eagerInv_new)
  from eager_run [OF this assms, of evs]
  have i: "eagerInv e (rpcRun evs (newRpcClient (Some e)))"
    and p: "posted (rpcRun evs (newRpcClient (Some e))) = posted (newRpcClient (Some e)) @
          map (\<lambda>c. (e, \<lparr>jsonrpc = ''2.0'', id' = None, method = fst c,
                         params = (if snd c = JUndefined then JObj [] else snd c)\<rparr>)) (callsOf evs)"
    by blast+
  from assms have "posted (newRpcClient (Some e)) = []" by (simp add: newRpcClient_def lazyClient_def)
  with p have p': "posted (rpcRun evs (newRpcClient (Some e)))
         = map (\<lambda>c. (e, \<lparr>jsonrpc = ''2.0'', id' = None, method = fst c,
                          params = (if snd c = JUndefined then JObj [] else snd c)\<rparr>)) (callsOf evs)"
    by simp
  from i have "serverUrlCalls (rpcRun evs (newRpcClient (Some e))) = 0"
    "windowIdCalls (rpcRun evs (newRpcClient (Some e))) = 0"
    "initializing (rpcRun evs (newRpcClient (Some e))) = []"
    "calling (rpcRun evs (newRpcClient (Some e))) = []"
    "refused (rpcRun evs (newRpcClient (Some e))) = []"
    "clientWindowId (client (rpcRun evs (newRpcClient (Some e)))) = None"
    "\<forall>r \<in> set (posted (rpcRun evs (newRpcClient (Some e)))). id' (snd r) = None"
    by (simp_all add: eagerInv_def)
  with p' show ?thesis by (intro conjI)
qed

theorem C10_explicit_endpoint_witness:
  "windowIdCalls (rpcRun [RpcCall ''ping'' JUndefined, RpcWindowIdResult 0 (Inr ''w1''), RpcCall ''add'' (JNum 1)]
      (newRpcClient (Some ''http://x/rpc''))) = 0
   \<and> posted (rpcRun [RpcCall ''ping'' JUndefined, RpcWindowIdResult 0 (Inr ''w1''), RpcCall ''add'' (JNum 1)]
      (newRpcClient (Some ''http://x/rpc'')))
       = [(''http://x/rpc'', \<lparr>jsonrpc = ''2.0'', id' = None, method = ''ping'', params = JObj []\<rparr>),
          (''http://x/rpc'', \<lparr>jsonrpc = ''2.0'', id' = None, method = ''add'', params = JNum 1\<rparr>)]"
  using C10_explicit_endpoint [of "''http://x/rpc''"
      "[RpcCall ''ping'' JUndefined, RpcWindowIdResult 0 (Inr ''w1''), RpcCall ''add'' (JNum 1)]"]
  by simp

text \<open>
  The claim as it was stated, for every client constructed with an explicit initial
  endpoint, fails for the empty string: \<^verbatim>\<open>if (initialEndpoint)\<close> is false for it, so the
  client initializes lazily, fetches the window ID from the host, and posts the call with
  that identifier.
\<close>

theorem C10_counterexample:
  "windowIdCalls (rpcRun [RpcCall ''ping'' JUndefined, RpcServerUrlResult 0 (Inr ''http://x/rpc''),
                          RpcWindowIdResult 0 (Inr ''w1'')] (newRpcClient (Some ''''))) = 1
   \<and> posted (rpcRun [RpcCall ''ping'' JUndefined, RpcServerUrlResult 0 (Inr ''http://x/rpc''),
                      RpcWindowIdResult 0 (Inr ''w1'')] (newRpcClient (Some '''')))
       = [(''http://x/rpc'', \<lparr>jsonrpc = ''2.0'', id' = Some ''w1'', method = ''ping'', params = JObj []\<rparr>)]"
proof -
  have "newRpcClient (Some '''') = lazyClient" by (simp add: newRpcClient_def)
  then show ?thesis by (simp add: ping_example)
qed

end
